theory Spec2Isabelle
  imports Complex_Main "HOL-Library.AList"
begin

section \<open>Values of the configuration and state trees\<close>

text \<open>
  The card works on plain JavaScript data: the configuration tree parsed from YAML, the
  defaults registry \<^verbatim>\<open>DEFAULT_CONFIG\<close> and the state snapshot pushed by the host.
  A number is a finite rational (every binary64 value is one), an infinity or NaN; the two
  zeros are not told apart, since nothing in the card divides. An object is its list of own
  enumerable properties in insertion order; property reads see own properties only.
\<close>

datatype jsnum = NaN | PosInf | NegInf | Fin rat

datatype jv =
    JUndefined
  | JNull
  | JBool bool
  | JNum jsnum
  | JStr string
  | JArr "jv list"
  | JObj "(string \<times> jv) list"

datatype js_error = TypeError | RangeError | Unmodelled

text \<open>\<^verbatim>\<open>if (v)\<close>, \<^verbatim>\<open>v && ...\<close>, \<^verbatim>\<open>!v\<close>: undefined, null, false, 0, NaN and the empty string are falsy.\<close>

fun truthy :: "jv \<Rightarrow> bool" where
  "truthy JUndefined = False"
| "truthy JNull = False"
| "truthy (JBool b) = b"
| "truthy (JNum n) = (n \<noteq> NaN \<and> n \<noteq> Fin 0)"
| "truthy (JStr s) = (s \<noteq> [])"
| "truthy (JArr xs) = True"
| "truthy (JObj kvs) = True"

fun typeof :: "jv \<Rightarrow> string" where
  "typeof JUndefined = ''undefined''"
| "typeof JNull = ''object''"
| "typeof (JBool b) = ''boolean''"
| "typeof (JNum n) = ''number''"
| "typeof (JStr s) = ''string''"
| "typeof (JArr xs) = ''object''"
| "typeof (JObj kvs) = ''object''"

fun isArray :: "jv \<Rightarrow> bool" where
  "isArray (JArr xs) = True"
| "isArray v = False"

text \<open>\<^verbatim>\<open>v === null || v === undefined\<close>, the test behind \<^verbatim>\<open>??\<close> and \<^verbatim>\<open>?.\<close>.\<close>

fun nullish :: "jv \<Rightarrow> bool" where
  "nullish JUndefined = True"
| "nullish JNull = True"
| "nullish v = False"

subsection \<open>Property keys of strings and arrays\<close>

definition digit_char :: "nat \<Rightarrow> char" where
  "digit_char d = char_of (48 + d)"

fun show_nat :: "nat \<Rightarrow> string" where
  "show_nat n = (if n < 10 then [digit_char n] else show_nat (n div 10) @ [digit_char (n mod 10)])"

declare show_nat.simps [simp del]

text \<open>The own enumerable properties of a sequence: index \<open>i\<close> under the key \<open>show_nat i\<close>.\<close>

fun indexed :: "nat \<Rightarrow> 'a list \<Rightarrow> (string \<times> 'a) list" where
  "indexed i [] = []"
| "indexed i (x # xs) = (show_nat i, x) # indexed (Suc i) xs"

definition str_entries :: "string \<Rightarrow> (string \<times> jv) list" where
  "str_entries s = indexed 0 (map (\<lambda>c. JStr [c]) s)"

text \<open>
  \<^verbatim>\<open>v[key]\<close> for a value that is neither null nor undefined (every read in the card is
  guarded so). Strings and arrays also answer \<^verbatim>\<open>length\<close>.
\<close>

fun get_prop :: "jv \<Rightarrow> string \<Rightarrow> jv" where
  "get_prop (JObj kvs) k = (case map_of kvs k of Some v \<Rightarrow> v | None \<Rightarrow> JUndefined)"
| "get_prop (JStr s) k =
     (if k = ''length'' then JNum (Fin (of_nat (length s)))
      else case map_of (str_entries s) k of Some v \<Rightarrow> v | None \<Rightarrow> JUndefined)"
| "get_prop (JArr xs) k =
     (if k = ''length'' then JNum (Fin (of_nat (length xs)))
      else case map_of (indexed 0 xs) k of Some v \<Rightarrow> v | None \<Rightarrow> JUndefined)"
| "get_prop v k = JUndefined"

text \<open>\<^verbatim>\<open>{ ...v }\<close>: the own enumerable properties of \<open>v\<close>; none for a number, a boolean, null or undefined.\<close>

fun spread :: "jv \<Rightarrow> (string \<times> jv) list" where
  "spread (JObj kvs) = kvs"
| "spread (JStr s) = str_entries s"
| "spread (JArr xs) = indexed 0 xs"
| "spread v = []"

text \<open>
  \<^verbatim>\<open>out[key] = v\<close> on the freshly built \<open>out\<close> of the merge. On a plain object an existing key
  keeps its place and a new key goes last. An assignment to a property of an Array object
  (index, \<^verbatim>\<open>length\<close> or named property) leaves the values modelled here.
\<close>

fun set_prop :: "jv \<Rightarrow> string \<Rightarrow> jv \<Rightarrow> js_error + jv" where
  "set_prop (JObj kvs) k v = Inr (JObj (AList.update k v kvs))"
| "set_prop (JArr xs) k v = Inl Unmodelled"
| "set_prop out k v = Inl TypeError"

section \<open>The config merger\<close>

text \<open>\<^verbatim>\<open>target ? target[key] : {}\<close>, the target of the nested merge.\<close>

definition target_at :: "jv \<Rightarrow> string \<Rightarrow> jv" where
  "target_at target key = (if truthy target then get_prop target key else JObj [])"

text \<open>
  \<^verbatim>\<open>deepMerge(target, source)\<close>. The loop \<^verbatim>\<open>for (const key of Object.keys(source))\<close> with
  \<^verbatim>\<open>val = source[key]\<close> runs over the own properties of \<open>source\<close> in order; \<open>merge_val\<close> is its body.
\<close>

fun deepMerge :: "jv \<Rightarrow> jv \<Rightarrow> js_error + jv"
  and merge_keys :: "jv \<Rightarrow> (string \<times> jv) list \<Rightarrow> jv \<Rightarrow> js_error + jv"
  and merge_elems :: "jv \<Rightarrow> nat \<Rightarrow> jv list \<Rightarrow> jv \<Rightarrow> js_error + jv"
  and merge_val :: "jv \<Rightarrow> string \<Rightarrow> jv \<Rightarrow> jv \<Rightarrow> js_error + jv"
where
  "deepMerge target (JObj kvs) =
     merge_keys target kvs (if isArray target then target else JObj (spread target))"
| "deepMerge target (JArr xs) =
     merge_elems target 0 xs (if isArray target then target else JObj (spread target))"
| "deepMerge target JUndefined = Inr (if isArray target then target else JObj (spread target))"
| "deepMerge target JNull = Inr (if isArray target then target else JObj (spread target))"
| "deepMerge target (JBool b) = Inr (if isArray target then target else JObj (spread target))"
| "deepMerge target (JNum n) = Inr (if isArray target then target else JObj (spread target))"
| "deepMerge target (JStr s) = Inr (if isArray target then target else JObj (spread target))"
| "merge_keys target [] out = Inr out"
| "merge_keys target ((key, val) # rest) out =
     (case merge_val target key val out of
        Inl e \<Rightarrow> Inl e
      | Inr out' \<Rightarrow> merge_keys target rest out')"
| "merge_elems target i [] out = Inr out"
| "merge_elems target i (val # rest) out =
     (case merge_val target (show_nat i) val out of
        Inl e \<Rightarrow> Inl e
      | Inr out' \<Rightarrow> merge_elems target (Suc i) rest out')"
| "merge_val target key (JObj kvs) out =
     (case deepMerge (target_at target key) (JObj kvs) of
        Inl e \<Rightarrow> Inl e
      | Inr m \<Rightarrow> set_prop out key m)"
| "merge_val target key JUndefined out = set_prop out key JUndefined"
| "merge_val target key JNull out = set_prop out key JNull"
| "merge_val target key (JBool b) out = set_prop out key (JBool b)"
| "merge_val target key (JNum n) out = set_prop out key (JNum n)"
| "merge_val target key (JStr s) out = set_prop out key (JStr s)"
| "merge_val target key (JArr xs) out = set_prop out key (JArr xs)"

text \<open>
  Well-formed trees: the keys of every object are pairwise distinct, as they are in any
  JavaScript object.
\<close>

fun wf_jv :: "jv \<Rightarrow> bool" where
  "wf_jv (JObj kvs) = (distinct (map fst kvs) \<and> (\<forall>p \<in> set kvs. wf_jv (snd p)))"
| "wf_jv (JArr xs) = (\<forall>x \<in> set xs. wf_jv x)"
| "wf_jv v = True"

text \<open>Trees without sequences, such as the defaults registry.\<close>

fun array_free :: "jv \<Rightarrow> bool" where
  "array_free (JObj kvs) = (\<forall>p \<in> set kvs. array_free (snd p))"
| "array_free (JArr xs) = False"
| "array_free v = True"

text \<open>
  The properties the merge loop visits: \<^verbatim>\<open>Object.keys(source)\<close> with their values, under the guard
  \<^verbatim>\<open>source && typeof source === 'object'\<close>.
\<close>

fun source_entries :: "jv \<Rightarrow> (string \<times> jv) list" where
  "source_entries (JObj kvs) = kvs"
| "source_entries (JArr xs) = indexed 0 xs"
| "source_entries v = []"

text \<open>\<^verbatim>\<open>val && typeof val === 'object' && !Array.isArray(val)\<close>\<close>

definition is_mapping :: "jv \<Rightarrow> bool" where
  "is_mapping val = (truthy val \<and> typeof val = ''object'' \<and> \<not> isArray val)"

text \<open>The value one round of the merge loop stores under \<open>key\<close> when the nested merge returns.\<close>

definition merged_value :: "jv \<Rightarrow> string \<Rightarrow> jv \<Rightarrow> jv" where
  "merged_value target key val =
     (if is_mapping val then projr (deepMerge (target_at target key) val) else val)"

definition store :: "jv \<Rightarrow> (string \<times> jv) list \<Rightarrow> string \<times> jv \<Rightarrow> (string \<times> jv) list" where
  "store target out kv = AList.update (fst kv) (merged_value target (fst kv) (snd kv)) out"


section \<open>The defaults registry\<close>

text \<open>\<^verbatim>\<open>DEFAULT_CONFIG\<close> of \<^verbatim>\<open>const.ts\<close>.\<close>

definition DEFAULT_CONFIG :: jv where
  "DEFAULT_CONFIG = JObj
    [(''entity_id'', JStr ''''),
     (''text'', JStr ''''),
     (''animation'', JNull),
     (''font'', JStr ''Home Assistant''),
     (''font_weight'', JStr ''normal''),
     (''color'', JStr ''#FFFFFF''),
     (''size'', JStr ''48''),
     (''number'', JObj
        [(''size'', JNull), (''color'', JNull), (''font_weight'', JNull),
         (''decimals'', JNum (Fin 1)), (''font'', JNull)]),
     (''unit_of_measurement'', JObj
        [(''display'', JBool True), (''as_prefix'', JBool False), (''display_text'', JNull),
         (''size'', JNull), (''color'', JNull), (''font_weight'', JNull), (''font'', JNull)]),
     (''title'', JObj
        [(''display'', JBool False), (''text'', JNull), (''attribute'', JNull),
         (''size'', JNull), (''color'', JNull), (''font_weight'', JNull), (''font'', JNull)]),
     (''subtitle'', JObj
        [(''display'', JBool False), (''text'', JNull), (''attribute'', JNull),
         (''size'', JNull), (''color'', JNull), (''font_weight'', JNull), (''font'', JNull)]),
     (''card'', JObj [(''color'', JNull), (''background'', JNull)])]"

section \<open>Conversions between values, numbers and strings\<close>

text \<open>
  Three built-ins of the language depend on the binary floating-point format: reading a
  number from a string, printing a finite number, and \<^verbatim>\<open>toFixed\<close> on a finite number. They
  are a parameter of every function below, so that what is proved about the card holds
  whatever these three compute.
\<close>

record builtins =
  parse_number :: "string \<Rightarrow> jsnum"
  number_to_string :: "rat \<Rightarrow> string"
  number_to_fixed :: "rat \<Rightarrow> nat \<Rightarrow> string"

fun num_str :: "builtins \<Rightarrow> jsnum \<Rightarrow> string" where
  "num_str B NaN = ''NaN''"
| "num_str B PosInf = ''Infinity''"
| "num_str B NegInf = ''-Infinity''"
| "num_str B (Fin q) = number_to_string B q"

fun join_comma :: "string list \<Rightarrow> string" where
  "join_comma [] = []"
| "join_comma [s] = s"
| "join_comma (s # t # ss) = s @ '','' @ join_comma (t # ss)"

text \<open>\<^verbatim>\<open>String(v)\<close>; also the conversion of \<open>v\<close> to a property key in \<^verbatim>\<open>obj[v]\<close>.\<close>

fun ToString :: "builtins \<Rightarrow> jv \<Rightarrow> string" where
  "ToString B JUndefined = ''undefined''"
| "ToString B JNull = ''null''"
| "ToString B (JBool b) = (if b then ''true'' else ''false'')"
| "ToString B (JNum n) = num_str B n"
| "ToString B (JStr s) = s"
| "ToString B (JArr xs) = join_comma (map (\<lambda>x. if nullish x then [] else ToString B x) xs)"
| "ToString B (JObj kvs) = ''[object Object]''"

text \<open>\<^verbatim>\<open>Number(v)\<close>; an array or object is converted through its string.\<close>

fun ToNumber :: "builtins \<Rightarrow> jv \<Rightarrow> jsnum" where
  "ToNumber B JUndefined = NaN"
| "ToNumber B JNull = Fin 0"
| "ToNumber B (JBool b) = (if b then Fin 1 else Fin 0)"
| "ToNumber B (JNum n) = n"
| "ToNumber B (JStr s) = parse_number B s"
| "ToNumber B (JArr xs) = parse_number B (ToString B (JArr xs))"
| "ToNumber B (JObj kvs) = parse_number B (ToString B (JObj kvs))"

fun isFinite :: "jsnum \<Rightarrow> bool" where
  "isFinite (Fin q) = True"
| "isFinite n = False"

fun isInteger :: "jsnum \<Rightarrow> bool" where
  "isInteger (Fin q) = (of_int \<lfloor>q\<rfloor> = q)"
| "isInteger n = False"

text \<open>\<^verbatim>\<open>n >= 0\<close>\<close>

fun ge_zero :: "jsnum \<Rightarrow> bool" where
  "ge_zero (Fin q) = (0 \<le> q)"
| "ge_zero PosInf = True"
| "ge_zero n = False"

text \<open>
  \<^verbatim>\<open>x.toFixed(digits)\<close>: the digits argument is truncated to an integer, and a count outside
  0..100 raises a RangeError.
\<close>

fun to_integer :: "jsnum \<Rightarrow> int option" where
  "to_integer NaN = Some 0"
| "to_integer (Fin q) = Some (if 0 \<le> q then \<lfloor>q\<rfloor> else - \<lfloor>- q\<rfloor>)"
| "to_integer n = None"

definition toFixed :: "builtins \<Rightarrow> jsnum \<Rightarrow> jsnum \<Rightarrow> js_error + string" where
  "toFixed B x digits =
     (case to_integer digits of
        None \<Rightarrow> Inl RangeError
      | Some f \<Rightarrow>
          if f < 0 \<or> 100 < f then Inl RangeError
          else (case x of Fin q \<Rightarrow> Inr (number_to_fixed B q (nat f)) | _ \<Rightarrow> Inr (num_str B x)))"

subsection \<open>String helpers\<close>

text \<open>\<^verbatim>\<open>s.includes(t)\<close>\<close>

fun str_includes :: "string \<Rightarrow> string \<Rightarrow> bool" where
  "str_includes [] t = (t = [])"
| "str_includes (c # s) t = (take (length t) (c # s) = t \<or> str_includes s t)"

definition is_space :: "char \<Rightarrow> bool" where
  "is_space c = (c \<in> set [CHR '' '', CHR 0x09, CHR 0x0A, CHR 0x0B, CHR 0x0C, CHR 0x0D])"

text \<open>\<^verbatim>\<open>s.trim()\<close>, on the ASCII white space and line terminators.\<close>

definition trim :: "string \<Rightarrow> string" where
  "trim s = rev (dropWhile is_space (rev (dropWhile is_space s)))"

text \<open>\<^verbatim>\<open>a && b\<close>, \<^verbatim>\<open>a || b\<close>, \<^verbatim>\<open>a ?? b\<close> and \<^verbatim>\<open>a?.k\<close> on values.\<close>

definition js_and :: "jv \<Rightarrow> jv \<Rightarrow> jv" where
  "js_and a b = (if truthy a then b else a)"

definition js_or :: "jv \<Rightarrow> jv \<Rightarrow> jv" where
  "js_or a b = (if truthy a then a else b)"

definition js_coalesce :: "jv \<Rightarrow> jv \<Rightarrow> jv" where
  "js_coalesce a b = (if nullish a then b else a)"

definition opt_get :: "jv \<Rightarrow> string \<Rightarrow> jv" where
  "opt_get v k = (if nullish v then JUndefined else get_prop v k)"

subsection \<open>A reference instance on decimal numerals\<close>

text \<open>
  For evaluating examples: numerals of the form sign, digits, optional fraction are read
  exactly, printed in positional notation, and rounded half away from zero by \<^verbatim>\<open>toFixed\<close>.
  This is what the language computes for short numerals such as \<^verbatim>\<open>21.456\<close>; exponents,
  other radices and the rounding of long numerals to binary64 are outside the instance.
\<close>

definition is_digit :: "char \<Rightarrow> bool" where
  "is_digit c = (48 \<le> (of_char c :: nat) \<and> (of_char c :: nat) \<le> 57)"

definition digits_val :: "string \<Rightarrow> nat" where
  "digits_val s = foldl (\<lambda>a c. 10 * a + (of_char c - 48)) 0 s"

definition unsigned_decimal :: "string \<Rightarrow> rat option" where
  "unsigned_decimal u =
     (let ip = takeWhile is_digit u; rest = dropWhile is_digit u in
      case rest of
        [] \<Rightarrow> if ip = [] then None else Some (of_nat (digits_val ip))
      | c # fp \<Rightarrow>
          if c = CHR ''.'' \<and> list_all is_digit fp \<and> (ip \<noteq> [] \<or> fp \<noteq> [])
          then Some (of_nat (digits_val ip) + of_nat (digits_val fp) / 10 ^ length fp)
          else None)"

definition dec_parse :: "string \<Rightarrow> jsnum" where
  "dec_parse s =
     (let t = trim s in
      if t = [] then Fin 0
      else if hd t = CHR ''-'' then (case unsigned_decimal (tl t) of Some q \<Rightarrow> Fin (- q) | None \<Rightarrow> NaN)
      else if hd t = CHR ''+'' then (case unsigned_decimal (tl t) of Some q \<Rightarrow> Fin q | None \<Rightarrow> NaN)
      else (case unsigned_decimal t of Some q \<Rightarrow> Fin q | None \<Rightarrow> NaN))"

fun frac_digits :: "nat \<Rightarrow> rat \<Rightarrow> string" where
  "frac_digits 0 q = []"
| "frac_digits (Suc n) q =
     (if q = 0 then [] else digit_char (nat \<lfloor>q * 10\<rfloor>) # frac_digits n (q * 10 - of_int \<lfloor>q * 10\<rfloor>))"

definition dec_to_string :: "rat \<Rightarrow> string" where
  "dec_to_string q =
     (let a = \<bar>q\<bar>; ip = \<lfloor>a\<rfloor>; fr = a - of_int ip in
      (if q < 0 then ''-'' else []) @ show_nat (nat ip)
        @ (if fr = 0 then [] else ''.'' @ frac_digits 20 fr))"

definition dec_to_fixed :: "rat \<Rightarrow> nat \<Rightarrow> string" where
  "dec_to_fixed q d =
     (let n = nat \<lfloor>\<bar>q\<bar> * 10 ^ d + 1 / 2\<rfloor>;
          ds = show_nat n;
          padded = replicate (Suc d - length ds) CHR ''0'' @ ds;
          k = length padded - d
      in (if q < 0 then ''-'' else []) @ take k padded @ (if d = 0 then [] else ''.'' @ drop k padded))"

definition dec_builtins :: builtins where
  "dec_builtins = \<lparr> parse_number = dec_parse, number_to_string = dec_to_string,
                     number_to_fixed = dec_to_fixed \<rparr>"

section \<open>The card component\<close>

text \<open>
  \<^verbatim>\<open>FONT_REGISTRY\<close> of \<^verbatim>\<open>const.ts\<close>: font label to stylesheet URL, null for the built-in font.
\<close>

definition FONT_REGISTRY :: jv where
  "FONT_REGISTRY = JObj
    [(''Home Assistant'', JNull),
     (''Rubik'', JStr ''https://fonts.googleapis.com/css2?family=Rubik:wght@300;400;500;700&display=swap''),
     (''Rubik Beastly'', JStr ''https://fonts.googleapis.com/css2?family=Rubik+Beastly&display=swap''),
     (''Rubik Bubbles'', JStr ''https://fonts.googleapis.com/css2?family=Rubik+Bubbles&display=swap''),
     (''Rubik Doodle Shadow'', JStr ''https://fonts.googleapis.com/css2?family=Rubik+Doodle+Shadow&display=swap''),
     (''Rubik Dirt'', JStr ''https://fonts.googleapis.com/css2?family=Rubik+Dirt&display=swap''),
     (''Rubik Glitch'', JStr ''https://fonts.googleapis.com/css2?family=Rubik+Glitch&display=swap''),
     (''Rubik Iso'', JStr ''https://fonts.googleapis.com/css2?family=Rubik+Iso&display=swap''),
     (''Rubik Microbe'', JStr ''https://fonts.googleapis.com/css2?family=Rubik+Microbe&display=swap''),
     (''Rubik Moonrocks'', JStr ''https://fonts.googleapis.com/css2?family=Rubik+Moonrocks&display=swap''),
     (''Rubik Pixels'', JStr ''https://fonts.googleapis.com/css2?family=Rubik+Pixels&display=swap''),
     (''Rubik Puddles'', JStr ''https://fonts.googleapis.com/css2?family=Rubik+Puddles&display=swap''),
     (''Rubik Scribble'', JStr ''https://fonts.googleapis.com/css2?family=Rubik+Scribble&display=swap''),
     (''Rubik Spray Paint'', JStr ''https://fonts.googleapis.com/css2?family=Rubik+Spray+Paint&display=swap''),
     (''Rubik Vinyl'', JStr ''https://fonts.googleapis.com/css2?family=Rubik+Vinyl&display=swap''),
     (''Rubik Wet Paint'', JStr ''https://fonts.googleapis.com/css2?family=Rubik+Wet+Paint&display=swap'')]"

subsection \<open>State of one card instance\<close>

text \<open>
  The host object \<^verbatim>\<open>hass\<close>: the state snapshot and, when it is a function, the template call.
  A call resolves to a value or is rejected.
\<close>

datatype api_result = Resolved jv | Rejected

record hass_t =
  states :: jv
  callApi :: "(string \<Rightarrow> api_result) option"

text \<open>The \<^verbatim>\<open>span#number\<close> element: its text and class list.\<close>

record element =
  textContent :: string
  classList :: "string list"

datatype dom_event = TextSet string | ClassReset | ClassAdd string | ClassRemove string

text \<open>The two callbacks handed to \<^verbatim>\<open>setTimeout\<close> by the value animation.\<close>

datatype timer_action = SwapText string string string | ClearClass string

text \<open>
  The fields of the class, the parts of the element tree that carry text, the stylesheet
  links appended to the document head, and three observers: the mutations of the number
  element, the templates sent to the host, and a clock in milliseconds with the pending
  timers. Style properties are not part of the state; no branch of the card reads them.
\<close>

record card_state =
  config :: jv
  shadowConfig :: jv
  hass :: "hass_t option"
  previousDisplayValue :: "string option"
  loadedFonts :: "jv list"
  head_links :: "jv list"
  content :: bool
  card_background :: "jv option"
  number_el :: "element option"
  unit_el :: "jv option"
  title_el :: "string option"
  subtitle_el :: "string option"
  dom_log :: "dom_event list"
  api_log :: "string list"
  now :: nat
  timers :: "(nat \<times> timer_action) list"

subsection \<open>Font loader\<close>

text \<open>\<^verbatim>\<open>loadFont(font)\<close>\<close>

definition loadFont :: "builtins \<Rightarrow> jv \<Rightarrow> card_state \<Rightarrow> card_state" where
  "loadFont B font st =
     (if \<not> truthy font \<or> font = JStr ''Home Assistant'' then st
      else if font \<in> set (loadedFonts st) then st
      else
        (let fontUrl = get_prop FONT_REGISTRY (ToString B font) in
         if truthy fontUrl
         then st\<lparr>head_links := head_links st @ [fontUrl], loadedFonts := loadedFonts st @ [font]\<rparr>
         else st\<lparr>loadedFonts := loadedFonts st @ [font]\<rparr>))"

subsection \<open>Display-text deriver\<close>

record display_texts =
  state_display_text :: string
  unit_of_measurement_text :: jv
  title_text :: string
  subtitle_text :: string

text \<open>\<^verbatim>\<open>this._hass && this._hass.states\<close>\<close>

definition hassStates :: "card_state \<Rightarrow> jv" where
  "hassStates st = (case hass st of None \<Rightarrow> JUndefined | Some h \<Rightarrow> states h)"

text \<open>The numeric branch of \<^verbatim>\<open>computeDisplayTexts\<close>: the text for a state that parses to a finite number.\<close>

definition format_number :: "builtins \<Rightarrow> card_state \<Rightarrow> jsnum \<Rightarrow> js_error + string" where
  "format_number B st parsed =
     (let decimalsCfgRaw = js_coalesce (opt_get (opt_get (config st) ''number'') ''decimals'')
                             (get_prop (get_prop DEFAULT_CONFIG ''number'') ''decimals'');
          decimalsCfg = (if isFinite (ToNumber B decimalsCfgRaw) then ToNumber B decimalsCfgRaw
                         else ToNumber B (get_prop (get_prop DEFAULT_CONFIG ''number'') ''decimals''));
          useDecimals = (isInteger decimalsCfg \<and> ge_zero decimalsCfg)
      in if useDecimals then toFixed B parsed decimalsCfg else Inr (ToString B (JNum parsed)))"

text \<open>Title and subtitle: explicit text from the shadow, else the named attribute of the entity.\<close>

definition explicit_text :: "card_state \<Rightarrow> string \<Rightarrow> jv" where
  "explicit_text st grp =
     js_coalesce (opt_get (opt_get (shadowConfig st) grp) ''text'')
                 (opt_get (opt_get (config st) grp) ''text'')"

definition label_text :: "builtins \<Rightarrow> card_state \<Rightarrow> jv \<Rightarrow> string \<Rightarrow> string" where
  "label_text B st stateObj grp =
     (let cfgText = explicit_text st grp;
          cfgAttr = opt_get (opt_get (config st) grp) ''attribute''
      in if \<not> nullish cfgText then ToString B cfgText
         else if truthy cfgAttr \<and> truthy (get_prop stateObj ''attributes'')
                 \<and> get_prop (get_prop stateObj ''attributes'') (ToString B cfgAttr) \<noteq> JUndefined
         then ToString B (get_prop (get_prop stateObj ''attributes'') (ToString B cfgAttr))
         else [])"

definition static_label_text :: "builtins \<Rightarrow> card_state \<Rightarrow> string \<Rightarrow> string" where
  "static_label_text B st grp =
     (let cfgText = explicit_text st grp in if \<not> nullish cfgText then ToString B cfgText else [])"

text \<open>\<^verbatim>\<open>computeDisplayTexts()\<close>\<close>

definition computeDisplayTexts :: "builtins \<Rightarrow> card_state \<Rightarrow> js_error + display_texts" where
  "computeDisplayTexts B st =
     (let hasEntityId = js_and (config st) (get_prop (config st) ''entity_id'');
          hs = hassStates st
      in
      if truthy hasEntityId \<and> truthy hs then
        (let stateObj = get_prop hs (ToString B (get_prop (config st) ''entity_id'')) in
         if truthy stateObj then
           (let rawState = get_prop stateObj ''state'';
                parsed = ToNumber B rawState;
                cfgUnitText = opt_get (opt_get (config st) ''unit_of_measurement'') ''display_text'';
                unit = (if \<not> nullish cfgUnitText then JStr (ToString B cfgUnitText)
                        else if truthy (get_prop stateObj ''attributes'')
                                \<and> truthy (get_prop (get_prop stateObj ''attributes'') ''unit_of_measurement'')
                        then get_prop (get_prop stateObj ''attributes'') ''unit_of_measurement''
                        else JStr [])
            in case (if \<not> isFinite parsed then Inr (ToString B rawState)
                     else format_number B st parsed) of
                 Inl e \<Rightarrow> Inl e
               | Inr txt \<Rightarrow>
                   Inr \<lparr> state_display_text = txt, unit_of_measurement_text = unit,
                         title_text = label_text B st stateObj ''title'',
                         subtitle_text = label_text B st stateObj ''subtitle'' \<rparr>)
         else Inr \<lparr> state_display_text = ''unknown'', unit_of_measurement_text = JStr [],
                    title_text = [], subtitle_text = [] \<rparr>)
      else if truthy hasEntityId \<and> \<not> truthy hs then
        Inr \<lparr> state_display_text = ''loading'', unit_of_measurement_text = JStr [],
              title_text = [], subtitle_text = [] \<rparr>
      else if \<not> truthy hasEntityId then
        (let cfgText = opt_get (config st) ''text'';
             cfgUnitText = opt_get (opt_get (config st) ''unit_of_measurement'') ''display_text''
         in Inr \<lparr> state_display_text = ToString B (js_coalesce cfgText (JStr [])),
                  unit_of_measurement_text =
                    (if \<not> nullish cfgUnitText then JStr (ToString B cfgUnitText) else JStr []),
                  title_text = static_label_text B st ''title'',
                  subtitle_text = static_label_text B st ''subtitle'' \<rparr>)
      else Inr \<lparr> state_display_text = ''0'', unit_of_measurement_text = JStr [],
                 title_text = [], subtitle_text = [] \<rparr>)"

subsection \<open>Template resolver\<close>

text \<open>\<^verbatim>\<open>typeof tpl === 'string' && (tpl.includes('{{') || tpl.includes('{%'))\<close>\<close>

fun is_template :: "jv \<Rightarrow> bool" where
  "is_template (JStr s) = (str_includes s ''{{'' \<or> str_includes s ''{%'')"
| "is_template v = False"

text \<open>
  \<^verbatim>\<open>await this._hass.callApi('POST', 'template', { template: tpl })\<close> under the guard
  \<^verbatim>\<open>this._hass && typeof this._hass.callApi === 'function'\<close>: the outcome of the call, or none
  when there is nothing to call. A render pass runs to its end before the next event, so
  the call is answered on the spot.
\<close>

definition host_call :: "card_state \<Rightarrow> string \<Rightarrow> api_result option" where
  "host_call st tpl =
     (case hass st of
        None \<Rightarrow> None
      | Some h \<Rightarrow> (case callApi h of None \<Rightarrow> None | Some f \<Rightarrow> Some (f tpl)))"

definition record_call :: "card_state \<Rightarrow> string \<Rightarrow> card_state" where
  "record_call st tpl = (if host_call st tpl = None then st else st\<lparr>api_log := api_log st @ [tpl]\<rparr>)"

text \<open>\<^verbatim>\<open>this.shadowConfig[grp][key] = v\<close>\<close>

definition set_shadow :: "card_state \<Rightarrow> string \<Rightarrow> string \<Rightarrow> jv \<Rightarrow> js_error + card_state" where
  "set_shadow st grp key v =
     (case set_prop (get_prop (shadowConfig st) grp) key v of
        Inl e \<Rightarrow> Inl e
      | Inr g \<Rightarrow>
          (case set_prop (shadowConfig st) grp g of
             Inl e \<Rightarrow> Inl e
           | Inr sc \<Rightarrow> Inr (st\<lparr>shadowConfig := sc\<rparr>)))"

text \<open>\<^verbatim>\<open>this.shadowConfig[grp] = this.shadowConfig[grp] || {}\<close>\<close>

definition ensure_group :: "card_state \<Rightarrow> string \<Rightarrow> js_error + card_state" where
  "ensure_group st grp =
     (case set_prop (shadowConfig st) grp (js_or (get_prop (shadowConfig st) grp) (JObj [])) of
        Inl e \<Rightarrow> Inl e
      | Inr sc \<Rightarrow> Inr (st\<lparr>shadowConfig := sc\<rparr>))"

text \<open>
  The fallback assignment \<^verbatim>\<open>this.shadowConfig[grp][key] = this.shadowConfig[grp][key] || tpl\<close>.
\<close>

definition keep_or_raw :: "card_state \<Rightarrow> string \<Rightarrow> string \<Rightarrow> jv \<Rightarrow> js_error + card_state" where
  "keep_or_raw st grp key tpl =
     set_shadow st grp key (js_or (get_prop (get_prop (shadowConfig st) grp) key) tpl)"

text \<open>\<^verbatim>\<open>typeof rendered === 'string'\<close> on the awaited result; a rejected call has no result.\<close>

fun rendered_string :: "api_result \<Rightarrow> string option" where
  "rendered_string (Resolved (JStr r)) = Some r"
| "rendered_string res = None"

text \<open>The block of \<^verbatim>\<open>applyTemplates\<close> for \<^verbatim>\<open>card.background\<close> (the loop over \<^verbatim>\<open>['background']\<close>).\<close>

definition apply_card_template :: "card_state \<Rightarrow> js_error + card_state" where
  "apply_card_template st =
     (if truthy (get_prop (config st) ''card'') then
        (case ensure_group st ''card'' of
           Inl e \<Rightarrow> Inl e
         | Inr st1 \<Rightarrow>
            (let cardCfg = js_or (get_prop (config st1) ''card'') (JObj []);
                 tpl = get_prop cardCfg ''background''
             in
             if \<not> truthy tpl \<and> truthy (get_prop (get_prop (shadowConfig st1) ''card'') ''background'')
             then Inr st1
             else if is_template tpl then
               (case tpl of
                  JStr t \<Rightarrow>
                    (case host_call st1 t of
                       None \<Rightarrow> keep_or_raw st1 ''card'' ''background'' tpl
                     | Some res \<Rightarrow>
                         (case rendered_string res of
                            Some r \<Rightarrow>
                              if trim r \<noteq> []
                              then set_shadow (record_call st1 t) ''card'' ''background'' (JStr (trim r))
                              else keep_or_raw (record_call st1 t) ''card'' ''background'' tpl
                          | None \<Rightarrow> keep_or_raw (record_call st1 t) ''card'' ''background'' tpl))
                | _ \<Rightarrow> Inr st1)
             else set_shadow st1 ''card'' ''background'' tpl))
      else Inr st)"

text \<open>
  The blocks for \<^verbatim>\<open>title.text\<close> and \<^verbatim>\<open>subtitle.text\<close>: the same code twice, with the group
  renamed.
\<close>

definition apply_text_template :: "card_state \<Rightarrow> string \<Rightarrow> js_error + card_state" where
  "apply_text_template st grp =
     (if truthy (get_prop (config st) grp) then
        (case ensure_group st grp of
           Inl e \<Rightarrow> Inl e
         | Inr st1 \<Rightarrow>
            (let txt = get_prop (get_prop (config st1) grp) ''text'' in
             if truthy txt \<and> is_template txt then
               (case txt of
                  JStr t \<Rightarrow>
                    (case host_call st1 t of
                       None \<Rightarrow> keep_or_raw st1 grp ''text'' txt
                     | Some res \<Rightarrow>
                         (case rendered_string res of
                            Some r \<Rightarrow> set_shadow (record_call st1 t) grp ''text'' (JStr r)
                          | None \<Rightarrow> keep_or_raw (record_call st1 t) grp ''text'' txt))
                | _ \<Rightarrow> Inr st1)
             else set_shadow st1 grp ''text'' txt))
      else Inr st)"

text \<open>\<^verbatim>\<open>applyTemplates()\<close>\<close>

definition applyTemplates :: "card_state \<Rightarrow> js_error + card_state" where
  "applyTemplates st =
     (if \<not> truthy (config st) then Inr st
      else
        (case (if \<not> truthy (shadowConfig st)
               then (case deepMerge (JObj []) (config st) of
                       Inl e \<Rightarrow> Inl e
                     | Inr sc \<Rightarrow> Inr (st\<lparr>shadowConfig := sc\<rparr>))
               else Inr st) of
           Inl e \<Rightarrow> Inl e
         | Inr st0 \<Rightarrow>
            (case apply_card_template st0 of
               Inl e \<Rightarrow> Inl e
             | Inr st1 \<Rightarrow>
                (case apply_text_template st1 ''title'' of
                   Inl e \<Rightarrow> Inl e
                 | Inr st2 \<Rightarrow> apply_text_template st2 ''subtitle''))))"

subsection \<open>Renderer\<close>

text \<open>\<^verbatim>\<open>ensureCard()\<close>: the card, its three containers and \<^verbatim>\<open>this.content\<close> are created once.\<close>

definition ensureCard :: "card_state \<Rightarrow> card_state" where
  "ensureCard st = (if content st then st else st\<lparr>content := True\<rparr>)"

text \<open>The number element, created empty when \<^verbatim>\<open>querySelector('span#number')\<close> finds none.\<close>

definition number_span :: "card_state \<Rightarrow> element" where
  "number_span st =
     (case number_el st of Some el \<Rightarrow> el | None \<Rightarrow> \<lparr> textContent = [], classList = [] \<rparr>)"

definition set_text :: "string \<Rightarrow> card_state \<Rightarrow> card_state" where
  "set_text v st =
     st\<lparr>number_el := Some ((number_span st)\<lparr>textContent := v\<rparr>), dom_log := dom_log st @ [TextSet v]\<rparr>"

definition class_reset :: "card_state \<Rightarrow> card_state" where
  "class_reset st =
     st\<lparr>number_el := Some ((number_span st)\<lparr>classList := []\<rparr>), dom_log := dom_log st @ [ClassReset]\<rparr>"

definition class_add :: "string \<Rightarrow> card_state \<Rightarrow> card_state" where
  "class_add c st =
     st\<lparr>number_el := Some ((number_span st)\<lparr>classList :=
           (if c \<in> set (classList (number_span st)) then classList (number_span st)
            else classList (number_span st) @ [c])\<rparr>),
        dom_log := dom_log st @ [ClassAdd c]\<rparr>"

definition class_remove :: "string \<Rightarrow> card_state \<Rightarrow> card_state" where
  "class_remove c st =
     st\<lparr>number_el := Some ((number_span st)\<lparr>classList := removeAll c (classList (number_span st))\<rparr>),
        dom_log := dom_log st @ [ClassRemove c]\<rparr>"

text \<open>\<^verbatim>\<open>setTimeout(callback, ms)\<close>\<close>

definition setTimeout :: "timer_action \<Rightarrow> nat \<Rightarrow> card_state \<Rightarrow> card_state" where
  "setTimeout a ms st = st\<lparr>timers := timers st @ [(now st + ms, a)]\<rparr>"

definition animationMap :: jv where
  "animationMap = JObj
    [(''fade'', JObj [(''out'', JStr ''animate-fade-out''), (''in'', JStr ''animate-fade-in'')]),
     (''slide-horizontal'', JObj [(''out'', JStr ''animate-slide-out-left''), (''in'', JStr ''animate-slide-in-right'')]),
     (''slide-vertical'', JObj [(''out'', JStr ''animate-slide-out-up''), (''in'', JStr ''animate-slide-in-up'')]),
     (''zoom'', JObj [(''out'', JStr ''animate-zoom-out''), (''in'', JStr ''animate-zoom-in'')]),
     (''stretch'', JObj [(''out'', JStr ''animate-stretch-out''), (''in'', JStr ''animate-stretch-in'')])]"

text \<open>\<^verbatim>\<open>animateValueChange(element, newValue, animationType)\<close> on the number element.\<close>

definition animateValueChange :: "builtins \<Rightarrow> string \<Rightarrow> jv \<Rightarrow> card_state \<Rightarrow> card_state" where
  "animateValueChange B newValue animationType st =
     (let animations = get_prop animationMap (ToString B animationType) in
      if \<not> truthy animations then set_text newValue st
      else
        setTimeout
          (SwapText newValue (ToString B (get_prop animations ''out'')) (ToString B (get_prop animations ''in'')))
          300
          (class_add (ToString B (get_prop animations ''out'')) (class_reset st)))"

text \<open>The callbacks, run at time \<open>t\<close>.\<close>

fun fire :: "timer_action \<Rightarrow> card_state \<Rightarrow> card_state" where
  "fire (SwapText newValue out inn) st =
     setTimeout (ClearClass inn) 300 (class_add inn (class_remove out (set_text newValue st)))"
| "fire (ClearClass inn) st = class_remove inn st"

text \<open>The pending timer that is due first; of two due together, the one set first.\<close>

fun next_timer :: "(nat \<times> timer_action) list \<Rightarrow> (nat \<times> timer_action) option" where
  "next_timer [] = None"
| "next_timer (x # xs) =
     (case next_timer xs of
        None \<Rightarrow> Some x
      | Some y \<Rightarrow> if fst y < fst x then Some y else Some x)"

fun timer_weight :: "nat \<times> timer_action \<Rightarrow> nat" where
  "timer_weight (d, SwapText v out inn) = 2"
| "timer_weight (d, ClearClass inn) = 1"

text \<open>Time passes until \<open>t\<close>: every timer due by then runs, at its due time, in order.\<close>

function advance_to :: "nat \<Rightarrow> card_state \<Rightarrow> card_state" where
  "advance_to t st =
     (case next_timer (timers st) of
        None \<Rightarrow> st\<lparr>now := max (now st) t\<rparr>
      | Some x \<Rightarrow>
          if fst x \<le> t
          then advance_to t (fire (snd x) (st\<lparr>timers := remove1 x (timers st), now := max (now st) (fst x)\<rparr>))
          else st\<lparr>now := max (now st) t\<rparr>)"
  by pat_completeness auto
termination
proof (relation "measure (\<lambda>(t, st). sum_list (map timer_weight (timers st)))")
  show "wf (measure (\<lambda>(t, st). sum_list (map timer_weight (timers st))))" by simp
next
  fix t :: nat and st :: card_state and x
  assume nt: "next_timer (timers st) = Some x" and "fst x \<le> t"
  have pick: "next_timer xs = Some y \<Longrightarrow> y \<in> set xs" for xs y
    by (induction xs arbitrary: y) (auto split: option.splits if_splits)
  from pick[OF nt] have mem: "x \<in> set (timers st)" .
  have split: "sum_list (map timer_weight (timers st))
      = timer_weight x + sum_list (map timer_weight (remove1 x (timers st)))"
    using mem by (rule sum_list_map_remove1)
  obtain d a where x: "x = (d, a)" by (cases x)
  have "sum_list (map timer_weight
          (timers (fire a (st\<lparr>timers := remove1 x (timers st), now := max (now st) d\<rparr>))))
        < sum_list (map timer_weight (timers st))"
    unfolding split x
    by (cases a)
       (simp_all add: setTimeout_def class_add_def class_remove_def set_text_def)
  then show "((t, fire (snd x) (st\<lparr>timers := remove1 x (timers st), now := max (now st) (fst x)\<rparr>)), (t, st))
      \<in> measure (\<lambda>(t, st). sum_list (map timer_weight (timers st)))"
    by (simp add: x)
qed

declare advance_to.simps [simp del]

text \<open>\<^verbatim>\<open>updateNumberDisplay(state_display_text, unit_of_measurement_text)\<close>\<close>

definition updateNumberDisplay :: "builtins \<Rightarrow> string \<Rightarrow> jv \<Rightarrow> card_state \<Rightarrow> card_state" where
  "updateNumberDisplay B txt unit st =
     (let cfg = js_or (config st) DEFAULT_CONFIG;
          cfgNumber = (if truthy cfg \<and> truthy (get_prop cfg ''number'') then get_prop cfg ''number''
                       else get_prop DEFAULT_CONFIG ''number'');
          uomCfg = (if truthy cfg \<and> truthy (get_prop cfg ''unit_of_measurement'')
                    then get_prop cfg ''unit_of_measurement''
                    else get_prop DEFAULT_CONFIG ''unit_of_measurement'');
          shadowCard = (if truthy (shadowConfig st) \<and> truthy (get_prop (shadowConfig st) ''card'')
                        then get_prop (shadowConfig st) ''card''
                        else if truthy cfg \<and> truthy (get_prop cfg ''card'') then get_prop cfg ''card''
                        else JObj []);
          st1 = (if truthy shadowCard \<and> truthy (get_prop shadowCard ''background'') \<and> content st
                 then st\<lparr>card_background := Some (get_prop shadowCard ''background'')\<rparr> else st);
          numberFontFamily = js_or (get_prop cfgNumber ''font'') (get_prop (get_prop DEFAULT_CONFIG ''number'') ''font'');
          st2 = loadFont B numberFontFamily st1;
          valueChanged = (previousDisplayValue st2 \<noteq> None \<and> previousDisplayValue st2 \<noteq> Some txt);
          animationType = get_prop cfg ''animation'';
          st3 = (if valueChanged \<and> truthy animationType \<and> animationType \<noteq> JStr ''none''
                 then animateValueChange B txt animationType st2
                 else set_text txt st2);
          st4 = st3\<lparr>previousDisplayValue := Some txt\<rparr>
      in
      if truthy uomCfg \<and> truthy (get_prop uomCfg ''display'')
      then (loadFont B (js_or (get_prop uomCfg ''font'')
                         (get_prop (get_prop DEFAULT_CONFIG ''unit_of_measurement'') ''font'')) st4)
             \<lparr>unit_el := Some unit\<rparr>
      else st4\<lparr>unit_el := None\<rparr>)"

text \<open>One of the two halves of \<^verbatim>\<open>updateTitleAndSubtitle\<close>, for the group \<open>grp\<close>.\<close>

definition label_update :: "builtins \<Rightarrow> string \<Rightarrow> string \<Rightarrow> card_state \<Rightarrow> (string option \<times> card_state)" where
  "label_update B grp txt st =
     (let cfg = js_or (config st) DEFAULT_CONFIG;
          grpCfg = (if truthy cfg \<and> truthy (get_prop cfg grp) then get_prop cfg grp
                    else get_prop DEFAULT_CONFIG grp)
      in
      if content st \<and> truthy grpCfg \<and> truthy (get_prop grpCfg ''display'') \<and> txt \<noteq> []
      then (Some txt,
            loadFont B (js_or (get_prop grpCfg ''font'') (get_prop (get_prop DEFAULT_CONFIG grp) ''font'')) st)
      else if content st then (None, st)
      else (if grp = ''title'' then title_el st else subtitle_el st, st))"

text \<open>\<^verbatim>\<open>updateTitleAndSubtitle(title_text, subtitle_text)\<close>\<close>

definition updateTitleAndSubtitle :: "builtins \<Rightarrow> string \<Rightarrow> string \<Rightarrow> card_state \<Rightarrow> card_state" where
  "updateTitleAndSubtitle B ttl sub st =
     (let (t_el, st1) = label_update B ''title'' ttl st;
          st2 = st1\<lparr>title_el := t_el\<rparr>;
          (s_el, st3) = label_update B ''subtitle'' sub st2
      in st3\<lparr>subtitle_el := s_el\<rparr>)"

subsection \<open>Update coordinator\<close>

text \<open>\<^verbatim>\<open>shouldUpdate()\<close>\<close>

definition shouldUpdate :: "builtins \<Rightarrow> card_state \<Rightarrow> js_error + bool" where
  "shouldUpdate B st =
     (case computeDisplayTexts B st of
        Inl e \<Rightarrow> Inl e
      | Inr texts \<Rightarrow>
          Inr (previousDisplayValue st = None \<or> previousDisplayValue st \<noteq> Some (state_display_text texts)))"

text \<open>
  \<^verbatim>\<open>updateContent()\<close>. An exception in a pass abandons it: the result is the error, and what
  the pass had changed so far is not tracked.
\<close>

definition updateContent :: "builtins \<Rightarrow> card_state \<Rightarrow> js_error + card_state" where
  "updateContent B st =
     (case shouldUpdate B st of
        Inl e \<Rightarrow> Inl e
      | Inr go \<Rightarrow>
          if \<not> go then Inr st
          else
            (case applyTemplates st of
               Inl e \<Rightarrow> Inl e
             | Inr st1 \<Rightarrow>
                (case computeDisplayTexts B st1 of
                   Inl e \<Rightarrow> Inl e
                 | Inr texts \<Rightarrow>
                    (let st2 = ensureCard st1;
                         st3 = (if content st2
                                then updateNumberDisplay B (state_display_text texts)
                                       (unit_of_measurement_text texts) st2
                                else st2)
                     in Inr (updateTitleAndSubtitle B (title_text texts) (subtitle_text texts) st3)))))"

text \<open>The setter \<^verbatim>\<open>set hass(hass)\<close>.\<close>

definition set_hass :: "builtins \<Rightarrow> hass_t option \<Rightarrow> card_state \<Rightarrow> js_error + card_state" where
  "set_hass B h st = updateContent B (st\<lparr>hass := h\<rparr>)"

text \<open>
  \<^verbatim>\<open>_applyConfig(config)\<close>, which \<^verbatim>\<open>setConfig\<close> runs once the 400 ms debounce has passed.
\<close>

definition applyConfig :: "builtins \<Rightarrow> jv \<Rightarrow> card_state \<Rightarrow> js_error + card_state" where
  "applyConfig B cfg st =
     (case deepMerge DEFAULT_CONFIG (js_or cfg (JObj [])) of
        Inl e \<Rightarrow> Inl e
      | Inr c \<Rightarrow>
          (case deepMerge (JObj []) c of
             Inl e \<Rightarrow> Inl e
           | Inr sc \<Rightarrow> updateContent B (st\<lparr>config := c, shadowConfig := sc\<rparr>)))"

text \<open>
  The constructor: both configurations start as clones of the registry; the field
  initialisers give the rest.
\<close>

definition new_card :: "js_error + card_state" where
  "new_card =
     (case deepMerge (JObj []) DEFAULT_CONFIG of
        Inl e \<Rightarrow> Inl e
      | Inr c \<Rightarrow>
          (case deepMerge (JObj []) c of
             Inl e \<Rightarrow> Inl e
           | Inr sc \<Rightarrow>
               Inr \<lparr> config = c, shadowConfig = sc, hass = None, previousDisplayValue = None,
                     loadedFonts = [], head_links = [], content = False, card_background = None,
                     number_el = None, unit_el = None, title_el = None, subtitle_el = None,
                     dom_log = [], api_log = [], now = 0, timers = [] \<rparr>))"

section \<open>Notions used to state the properties\<close>

text \<open>\<^verbatim>\<open>this.config && this.config.entity_id\<close>, the test for a configured entity.\<close>

definition hasEntityId :: "card_state \<Rightarrow> jv" where
  "hasEntityId st = js_and (config st) (get_prop (config st) ''entity_id'')"

text \<open>The state record of the configured entity in the snapshot.\<close>

definition entity_state :: "builtins \<Rightarrow> card_state \<Rightarrow> jv" where
  "entity_state B st = get_prop (hassStates st) (ToString B (get_prop (config st) ''entity_id''))"

text \<open>
  The number of decimal places in force, in the words of the amended claim C2: the
  configured \<^verbatim>\<open>number.decimals\<close> converted to a number, and the default 1 when it is null,
  undefined or does not convert to a finite number.
\<close>

definition spec_decimals :: "builtins \<Rightarrow> card_state \<Rightarrow> jsnum" where
  "spec_decimals B st =
     (let raw = opt_get (opt_get (config st) ''number'') ''decimals'' in
      if nullish raw \<or> \<not> isFinite (ToNumber B raw) then Fin 1 else ToNumber B raw)"

text \<open>
  Example states: a card on the registry defaults, and a card configured for the entity
  \<^verbatim>\<open>sensor.t\<close> with a given state string and a given \<^verbatim>\<open>number.decimals\<close>.
\<close>

definition sensor_hass :: "string \<Rightarrow> hass_t" where
  "sensor_hass s = \<lparr> states = JObj [(''sensor.t'', JObj [(''state'', JStr s)])], callApi = None \<rparr>"

definition blank_card :: card_state where
  "blank_card = \<lparr> config = DEFAULT_CONFIG, shadowConfig = DEFAULT_CONFIG, hass = None,
       previousDisplayValue = None, loadedFonts = [], head_links = [], content = False,
       card_background = None, number_el = None, unit_el = None, title_el = None,
       subtitle_el = None, dom_log = [], api_log = [], now = 0, timers = [] \<rparr>"

definition sensor_card :: "string \<Rightarrow> jv \<Rightarrow> card_state" where
  "sensor_card s decimals =
     blank_card\<lparr> config := JObj [(''entity_id'', JStr ''sensor.t''),
                                 (''number'', JObj [(''decimals'', decimals)])],
                 hass := Some (sensor_hass s) \<rparr>"

text \<open>The five nested groups of a configuration are present as mappings.\<close>

definition has_groups :: "jv \<Rightarrow> bool" where
  "has_groups c =
     (is_mapping (get_prop c ''number'') \<and> is_mapping (get_prop c ''unit_of_measurement'')
      \<and> is_mapping (get_prop c ''title'') \<and> is_mapping (get_prop c ''subtitle'')
      \<and> is_mapping (get_prop c ''card''))"


text \<open>The value of a templatable field in the effective and in the shadow configuration.\<close>

definition config_value :: "card_state \<Rightarrow> string \<Rightarrow> string \<Rightarrow> jv" where
  "config_value st grp key = get_prop (get_prop (config st) grp) key"

definition shadow_value :: "card_state \<Rightarrow> string \<Rightarrow> string \<Rightarrow> jv" where
  "shadow_value st grp key = get_prop (get_prop (shadowConfig st) grp) key"

text \<open>
  The shadow configuration is an object, and each of its three groups with a templatable
  field is a mapping or is missing. Every shadow built by \<^verbatim>\<open>deepMerge({}, config)\<close> from a
  configuration whose groups are mappings has this shape.
\<close>

definition group_ok :: "jv \<Rightarrow> bool" where
  "group_ok g = (\<not> truthy g \<or> is_mapping g)"

definition shadow_ok :: "card_state \<Rightarrow> bool" where
  "shadow_ok st =
     (is_mapping (shadowConfig st) \<and> group_ok (get_prop (shadowConfig st) ''card'')
      \<and> group_ok (get_prop (shadowConfig st) ''title'')
      \<and> group_ok (get_prop (shadowConfig st) ''subtitle''))"

text \<open>
  Example states of the template resolver: a configuration with a plain title, a plain
  background and a templated subtitle; a configuration whose empty background meets a
  shadow that still holds a background; a templated title with a previous shadow value.
\<close>

definition answering :: "jv \<Rightarrow> hass_t" where
  "answering r = \<lparr> states = JObj [], callApi = Some (\<lambda>t. Resolved r) \<rparr>"



definition titled_card :: "jv \<Rightarrow> card_state" where
  "titled_card r = blank_card
     \<lparr> config := JObj [(''title'', JObj [(''text'', JStr ''{{ x }}'')])],
       shadowConfig := JObj [(''title'', JObj [(''text'', JStr ''Old'')])],
       hass := Some (answering r) \<rparr>"

text \<open>Two states that agree on everything but the shadow configuration and the call log.\<close>

definition resolver_frame :: "card_state \<Rightarrow> card_state \<Rightarrow> bool" where
  "resolver_frame st st' = (st' = st\<lparr>shadowConfig := shadowConfig st', api_log := api_log st'\<rparr>)"

text \<open>The number of assignments to the text of the number element, and of changes to its classes.\<close>

fun is_text_event :: "dom_event \<Rightarrow> bool" where
  "is_text_event (TextSet v) = True"
| "is_text_event e = False"

definition text_mutations :: "card_state \<Rightarrow> nat" where
  "text_mutations st = length (filter is_text_event (dom_log st))"

definition class_changes :: "card_state \<Rightarrow> nat" where
  "class_changes st = length (filter (\<lambda>e. \<not> is_text_event e) (dom_log st))"

text \<open>
  A card that shows \<^verbatim>\<open>21.4\<close> at time 1000 with no transition in flight, configured with a given
  animation kind.
\<close>

definition shown_card :: "jv \<Rightarrow> card_state" where
  "shown_card anim = blank_card
     \<lparr> config := JObj [(''entity_id'', JStr ''sensor.t''), (''animation'', anim)],
       previousDisplayValue := Some ''21.4'', content := True,
       number_el := Some \<lparr>textContent = ''21.4'', classList = []\<rparr>,
       now := 1000 \<rparr>"

section \<open>Properties of the config merger\<close>

subsection \<open>Index keys\<close>

lemma show_nat_ne: "show_nat n \<noteq> []"
  by (subst show_nat.simps) simp

lemma of_char_digit: "d < 10 \<Longrightarrow> (of_char (digit_char d) :: nat) = 48 + d"
  unfolding digit_char_def by simp

lemma digit_char_inj:
  assumes "a < 10" and "b < 10" and "digit_char a = digit_char b"
  shows "a = b"
proof -
  have "(of_char (digit_char a) :: nat) = of_char (digit_char b)"
    using assms(3) by (simp only:)
  then have "48 + a = 48 + b"
    using of_char_digit[OF assms(1)] of_char_digit[OF assms(2)] by (simp only:)
  then show ?thesis by simp
qed

lemma show_nat_inj: "show_nat m = show_nat n \<Longrightarrow> m = n"
proof (induction m arbitrary: n rule: show_nat.induct)
  case (1 m)
  show ?case
  proof (cases "m < 10")
    case True
    show ?thesis
    proof (cases "n < 10")
      case n: True
      from "1.prems" True n have "digit_char m = digit_char n"
        by (simp add: show_nat.simps[of m] show_nat.simps[of n])
      then show ?thesis using True n digit_char_inj by blast
    next
      case n: False
      from "1.prems" True n have "[digit_char m] = show_nat (n div 10) @ [digit_char (n mod 10)]"
        by (simp add: show_nat.simps[of m] show_nat.simps[of n])
      then have "show_nat (n div 10) = []" by simp
      then show ?thesis using show_nat_ne by blast
    qed
  next
    case False
    show ?thesis
    proof (cases "n < 10")
      case n: True
      from "1.prems" False n have "show_nat (m div 10) @ [digit_char (m mod 10)] = [digit_char n]"
        by (simp add: show_nat.simps[of m] show_nat.simps[of n])
      then have "show_nat (m div 10) = []" by simp
      then show ?thesis using show_nat_ne by blast
    next
      case n: False
      from "1.prems" False n
      have "show_nat (m div 10) @ [digit_char (m mod 10)] = show_nat (n div 10) @ [digit_char (n mod 10)]"
        by (simp add: show_nat.simps[of m] show_nat.simps[of n])
      then have a: "show_nat (m div 10) = show_nat (n div 10)"
        and b: "digit_char (m mod 10) = digit_char (n mod 10)" by simp_all
      from "1.IH"[OF False a] have "m div 10 = n div 10" .
      moreover from b have "m mod 10 = n mod 10" by (intro digit_char_inj) simp_all
      ultimately have "m div 10 * 10 + m mod 10 = n div 10 * 10 + n mod 10" by simp
      then show ?thesis by (simp only: div_mult_mod_eq)
    qed
  qed
qed

lemma show_nat_digits: "c \<in> set (show_nat n) \<Longrightarrow> \<exists>d<10. c = digit_char d"
proof (induction n rule: show_nat.induct)
  case (1 n)
  show ?case
  proof (cases "n < 10")
    case True
    with "1.prems" show ?thesis by (auto simp: show_nat.simps[of n])
  next
    case False
    with "1.prems" have "c \<in> set (show_nat (n div 10)) \<or> c = digit_char (n mod 10)"
      by (auto simp: show_nat.simps[of n])
    then show ?thesis
    proof
      assume "c \<in> set (show_nat (n div 10))"
      with "1.IH" False show ?thesis by blast
    next
      assume "c = digit_char (n mod 10)"
      then show ?thesis by (intro exI[of _ "n mod 10"]) simp
    qed
  qed
qed

lemma show_nat_not_length: "show_nat n \<noteq> ''length''"
proof
  assume "show_nat n = ''length''"
  then have "CHR ''l'' \<in> set (show_nat n)" by simp
  then obtain d where d: "d < 10" "CHR ''l'' = digit_char d" using show_nat_digits by blast
  have "(of_char (CHR ''l'') :: nat) = 108" by simp
  with d of_char_digit[of d] show False by simp
qed


lemma map_fst_indexed: "map fst (indexed i xs) = map show_nat [i..<i + length xs]"
proof (induction xs arbitrary: i)
  case Nil
  then show ?case by simp
next
  case (Cons x xs)
  have "[i..<i + length (x # xs)] = i # [Suc i..<Suc i + length xs]"
    by (subst upt_rec) simp
  with Cons show ?case by simp
qed

lemma distinct_indexed: "distinct (map fst (indexed i xs))"
  unfolding map_fst_indexed
  by (simp add: distinct_map inj_on_def show_nat_inj)

lemma merge_elems_keys: "merge_elems T i xs out = merge_keys T (indexed i xs) out"
  by (induction xs arbitrary: i out) (simp_all split: sum.splits)

lemma array_free_get_prop: "array_free T \<Longrightarrow> array_free (get_prop T k)"
proof (cases T)
  case (JObj kvs)
  assume "array_free T"
  with JObj show ?thesis
    by (auto split: option.splits dest!: map_of_SomeD)
next
  case (JStr s)
  have mem: "map_of (indexed i xs) k = Some v \<Longrightarrow> v \<in> set xs" for i and xs :: "jv list" and v
    by (induction xs arbitrary: i) (auto split: if_splits)
  from JStr show ?thesis
    by (auto simp: str_entries_def split: option.splits dest!: mem)
qed simp_all

lemma array_free_target_at: "array_free T \<Longrightarrow> array_free (target_at T k)"
  by (simp add: target_at_def array_free_get_prop)

lemma array_free_not_array: "array_free T \<Longrightarrow> \<not> isArray T"
  by (cases T) simp_all

lemma merge_succeeds_aux:
  "array_free T \<longrightarrow> (\<exists>r. deepMerge T S = Inr (JObj r))"
  "array_free T2 \<longrightarrow> (\<forall>ob. out2 = JObj ob \<longrightarrow> (\<exists>r. merge_keys T2 kvs out2 = Inr (JObj r)))"
  "array_free T3 \<longrightarrow> (\<forall>ob. out3 = JObj ob \<longrightarrow> (\<exists>r. merge_elems T3 i xs out3 = Inr (JObj r)))"
  "array_free T4 \<longrightarrow> (\<forall>ob. out4 = JObj ob \<longrightarrow> (\<exists>r. merge_val T4 k v out4 = Inr (JObj r)))"
proof (induction T S and T2 kvs out2 and T3 i xs out3 and T4 k v out4
    rule: deepMerge_merge_keys_merge_elems_merge_val.induct)
  case (9 target key val rest out)
  then show ?case by (auto split: sum.splits)
next
  case (11 target i val rest out)
  then show ?case by (auto split: sum.splits)
next
  case (12 target key kvs out)
  then show ?case by (auto simp: array_free_target_at split: sum.splits)
qed (simp_all add: array_free_not_array)

lemma deepMerge_succeeds: "array_free T \<Longrightarrow> \<exists>r. deepMerge T S = Inr (JObj r)"
  using merge_succeeds_aux(1) by blast

lemma merge_val_succeeds: "array_free T \<Longrightarrow> \<exists>r. merge_val T k v (JObj ob) = Inr (JObj r)"
  using merge_succeeds_aux(4) by blast

lemma merge_val_store:
  assumes "array_free T"
  shows "merge_val T k v (JObj ob) = Inr (JObj (store T ob (k, v)))"
proof (cases v)
  case (JObj kvs)
  from deepMerge_succeeds[OF array_free_target_at[OF assms]]
  obtain r where "deepMerge (target_at T k) (JObj kvs) = Inr (JObj r)" by blast
  with JObj show ?thesis
    by (simp add: store_def merged_value_def is_mapping_def)
qed (simp_all add: store_def merged_value_def is_mapping_def)

lemma merge_keys_foldl:
  assumes "array_free T"
  shows "merge_keys T kvs (JObj ob) = Inr (JObj (foldl (store T) ob kvs))"
proof (induction kvs arbitrary: ob)
  case Nil
  then show ?case by simp
next
  case (Cons kv kvs)
  obtain k v where kv: "kv = (k, v)" by (cases kv)
  show ?case unfolding kv by (simp add: merge_val_store[OF assms] Cons.IH)
qed

lemma deepMerge_closed:
  assumes "array_free T"
  shows "deepMerge T S = Inr (JObj (foldl (store T) (spread T) (source_entries S)))"
proof (cases S)
  case (JObj kvs)
  then show ?thesis by (simp add: array_free_not_array[OF assms] merge_keys_foldl[OF assms])
next
  case (JArr xs)
  then show ?thesis
    by (simp add: array_free_not_array[OF assms] merge_elems_keys merge_keys_foldl[OF assms])
qed (simp_all add: array_free_not_array[OF assms])

lemma update_append_fresh:
  "k \<notin> fst ` set ps \<Longrightarrow> AList.update k v (ps @ qs) = ps @ AList.update k v qs"
  by (induction ps) auto

lemma foldl_update_self:
  assumes "distinct (map fst (ps @ rs))"
    and "map fst xs = take (length xs) (map fst rs)"
    and "length xs \<le> length rs"
  shows "foldl (\<lambda>acc kv. AList.update (fst kv) (snd kv) acc) (ps @ xs) rs = ps @ rs"
  using assms
proof (induction rs arbitrary: ps xs)
  case Nil
  then show ?case by simp
next
  case (Cons r rs)
  obtain k w where r: "r = (k, w)" by (cases r)
  from Cons.prems(1) have fresh: "k \<notin> fst ` set ps" by (auto simp: r)
  show ?case
  proof (cases xs)
    case Nil
    have "AList.update k w (ps @ []) = ps @ [(k, w)]"
      using fresh by (simp add: update_append_fresh del: append_Nil2)
    then have "foldl (\<lambda>acc kv. AList.update (fst kv) (snd kv) acc) (ps @ xs) (r # rs)
        = foldl (\<lambda>acc kv. AList.update (fst kv) (snd kv) acc) ((ps @ [(k, w)]) @ []) rs"
      by (simp add: Nil r)
    also have "\<dots> = (ps @ [(k, w)]) @ rs"
      using Cons.prems(1) by (intro Cons.IH) (simp_all add: r)
    finally show ?thesis by (simp add: r)
  next
    case (Cons x xs')
    obtain k' x' where x: "x = (k', x')" by (cases x)
    from Cons.prems(2) have kk: "k' = k" by (simp add: Cons x r)
    have "AList.update k w (ps @ xs) = ps @ (k, w) # xs'"
      using fresh by (simp add: update_append_fresh Cons x kk)
    then have "foldl (\<lambda>acc kv. AList.update (fst kv) (snd kv) acc) (ps @ xs) (r # rs)
        = foldl (\<lambda>acc kv. AList.update (fst kv) (snd kv) acc) ((ps @ [(k, w)]) @ xs') rs"
      by (simp add: r)
    also have "\<dots> = (ps @ [(k, w)]) @ rs"
      using Cons.prems by (intro Cons.IH) (simp_all add: r Cons x)
    finally show ?thesis by (simp add: r)
  qed
qed

lemma store_keys:
  "map fst (store T ob kv) = (if fst kv \<in> set (map fst ob) then map fst ob else map fst ob @ [fst kv])"
  by (simp add: store_def update_keys)

lemma foldl_store_keys_prefix:
  "\<exists>ys. map fst (foldl (store T) ob kvs) = map fst ob @ ys"
proof (induction kvs arbitrary: ob)
  case Nil
  then show ?case by simp
next
  case (Cons kv kvs)
  from Cons.IH[of "store T ob kv"] obtain ys
    where "map fst (foldl (store T) (store T ob kv) kvs) = map fst (store T ob kv) @ ys" by blast
  then show ?case by (auto simp: store_keys)
qed

lemma foldl_store_distinct:
  "distinct (map fst ob) \<Longrightarrow> distinct (map fst (foldl (store T) ob kvs))"
  by (induction kvs arbitrary: ob) (simp_all add: store_def distinct_update)

lemma store_dom: "fst ` set (store T ob kv) = insert (fst kv) (fst ` set ob)"
  by (simp add: store_def dom_update)

lemma foldl_store_keys_set:
  "fst ` set (foldl (store T) ob kvs) = fst ` set ob \<union> fst ` set kvs"
proof (induction kvs arbitrary: ob)
  case Nil
  then show ?case by simp
next
  case (Cons kv kvs)
  have "fst ` set (foldl (store T) (store T ob kv) kvs) = fst ` set (store T ob kv) \<union> fst ` set kvs"
    by (rule Cons.IH)
  then show ?case by (simp add: store_dom)
qed

lemma store_lookup:
  "map_of (store T ob (k', v')) k = (if k = k' then Some (merged_value T k' v') else map_of ob k)"
  by (simp add: store_def update_conv')

lemma store_mem:
  "(k, w) \<in> set (store T ob (k', v')) \<Longrightarrow> (k, w) \<in> set ob \<or> (k = k' \<and> w = merged_value T k' v')"
proof -
  have upd: "(a, b) \<in> set (AList.update c d al) \<Longrightarrow> (a, b) \<in> set al \<or> (a = c \<and> b = d)"
    for a b c d and al :: "(string \<times> jv) list"
    by (induction al) (auto split: if_splits)
  show "(k, w) \<in> set (store T ob (k', v')) \<Longrightarrow> (k, w) \<in> set ob \<or> (k = k' \<and> w = merged_value T k' v')"
    by (auto simp: store_def dest!: upd)
qed

lemma foldl_store_lookup:
  "distinct (map fst kvs) \<Longrightarrow>
   map_of (foldl (store T) ob kvs) k =
     (case map_of kvs k of Some v \<Rightarrow> Some (merged_value T k v) | None \<Rightarrow> map_of ob k)"
proof (induction kvs arbitrary: ob)
  case Nil
  then show ?case by simp
next
  case (Cons kv kvs)
  obtain k' v' where kv: "kv = (k', v')" by (cases kv)
  from Cons.prems have d: "distinct (map fst kvs)" and nk: "k' \<notin> fst ` set kvs"
    by (auto simp: kv)
  from nk have none: "map_of kvs k' = None" by (simp add: map_of_eq_None_iff)
  have IH: "map_of (foldl (store T) (store T ob kv) kvs) k =
      (case map_of kvs k of Some v \<Rightarrow> Some (merged_value T k v) | None \<Rightarrow> map_of (store T ob kv) k)"
    by (rule Cons.IH[OF d])
  show ?case
  proof (cases "k = k'")
    case True
    with none have "map_of kvs k = None" by simp
    with IH True show ?thesis by (simp add: kv store_lookup)
  next
    case False
    with IH show ?thesis by (simp add: kv store_lookup split: option.splits)
  qed
qed

lemma foldl_store_mem:
  "(k, w) \<in> set (foldl (store T) ob kvs) \<Longrightarrow>
     (k, w) \<in> set ob \<or> (\<exists>v. (k, v) \<in> set kvs \<and> w = merged_value T k v)"
proof (induction kvs arbitrary: ob)
  case Nil
  then show ?case by simp
next
  case (Cons kv kvs)
  obtain k' v' where kv: "kv = (k', v')" by (cases kv)
  from Cons.IH[of "store T ob kv"] Cons.prems
  have "(k, w) \<in> set (store T ob kv) \<or> (\<exists>v. (k, v) \<in> set kvs \<and> w = merged_value T k v)"
    by simp
  then show ?case
    by (auto simp: kv dest!: store_mem)
qed

lemma indexed_mem: "(k, v) \<in> set (indexed i xs) \<Longrightarrow> v \<in> set xs"
  by (induction xs arbitrary: i) auto

lemma str_entries_not_mapping: "(k, w) \<in> set (str_entries s) \<Longrightarrow> \<not> is_mapping w"
  by (auto simp: str_entries_def is_mapping_def dest!: indexed_mem)

lemma is_mapping_iff: "is_mapping v \<longleftrightarrow> (\<exists>kvs. v = JObj kvs)"
  by (cases v) (simp_all add: is_mapping_def)

lemma wf_get_prop: "wf_jv T \<Longrightarrow> wf_jv (get_prop T k)"
proof (cases T)
  case (JObj kvs)
  assume "wf_jv T"
  with JObj show ?thesis
    by (auto split: option.splits dest!: map_of_SomeD)
next
  case (JStr s)
  have "wf_jv w" if "(k, w) \<in> set (str_entries s)" for w
    using that by (auto simp: str_entries_def dest!: indexed_mem)
  then show ?thesis using JStr
    by (auto split: option.splits dest!: map_of_SomeD)
next
  case (JArr xs)
  assume "wf_jv T"
  with JArr show ?thesis
    by (auto split: option.splits dest!: map_of_SomeD indexed_mem)
qed simp_all

lemma wf_target_at: "wf_jv T \<Longrightarrow> wf_jv (target_at T k)"
  by (simp add: target_at_def wf_get_prop)

lemma spread_distinct: "wf_jv T \<Longrightarrow> distinct (map fst (spread T))"
  by (cases T) (simp_all add: str_entries_def distinct_indexed)

lemma merge_keys_fixed:
  "(\<And>k v. (k, v) \<in> set kvs \<Longrightarrow> merge_val T k v (JObj ob) = Inr (JObj ob))
    \<Longrightarrow> merge_keys T kvs (JObj ob) = Inr (JObj ob)"
  by (induction kvs) auto

lemma self_merge: "wf_jv w \<Longrightarrow> is_mapping w \<Longrightarrow> deepMerge w w = Inr w"
proof (induction w)
  case (JObj kvs)
  have "merge_val (JObj kvs) k v (JObj kvs) = Inr (JObj kvs)" if kv: "(k, v) \<in> set kvs" for k v
  proof -
    from JObj.prems(1) kv have look: "map_of kvs k = Some v" and wfv: "wf_jv v"
      by auto
    have triv: "set_prop (JObj kvs) k v = Inr (JObj kvs)"
      by (simp add: update_triv[OF look])
    show ?thesis
    proof (cases "is_mapping v")
      case True
      then obtain kvs' where v: "v = JObj kvs'" by (auto simp: is_mapping_iff)
      have "deepMerge v v = Inr v"
        using JObj.IH[of "(k, v)" v] kv wfv True by simp
      with triv show ?thesis by (simp add: v target_at_def look)
    next
      case False
      with triv show ?thesis by (cases v) (simp_all add: is_mapping_def)
    qed
  qed
  then have "merge_keys (JObj kvs) kvs (JObj kvs) = Inr (JObj kvs)"
    by (rule merge_keys_fixed)
  then show ?case by simp
qed (simp_all add: is_mapping_def)

lemma merge_idem_step:
  assumes T: "array_free T" "wf_jv T"
    and E: "distinct (map fst E)"
    and IH: "\<And>k v T' R. (k, v) \<in> set E \<Longrightarrow> is_mapping v \<Longrightarrow> array_free T' \<Longrightarrow> wf_jv T'
               \<Longrightarrow> deepMerge T' v = Inr R \<Longrightarrow> deepMerge T' R = Inr R"
  shows "foldl (store T) (spread T) (foldl (store T) (spread T) E) = foldl (store T) (spread T) E"
proof -
  let ?X = "spread T"
  let ?R = "foldl (store T) ?X E"
  have fixp: "merged_value T k w = w" if mem: "(k, w) \<in> set ?R" for k w
  proof (cases "is_mapping w")
    case False
    then show ?thesis by (simp add: merged_value_def)
  next
    case True
    from foldl_store_mem[OF mem]
    consider (old) "(k, w) \<in> set ?X" | (new) v where "(k, v) \<in> set E" "w = merged_value T k v"
      by blast
    then show ?thesis
    proof cases
      case old
      have "\<exists>d. T = JObj d"
      proof (cases T)
        case (JStr s)
        with old True str_entries_not_mapping show ?thesis by auto
      next
        case (JArr xs)
        with T(1) show ?thesis by simp
      qed (use old in simp_all)
      then obtain d where d: "T = JObj d" by blast
      from old T(2) have "map_of d k = Some w" and "wf_jv w" by (auto simp: d)
      then have "target_at T k = w" by (simp add: target_at_def d)
      with self_merge[OF \<open>wf_jv w\<close> True] True show ?thesis by (simp add: merged_value_def)
    next
      case new
      show ?thesis
      proof (cases "is_mapping v")
        case v: False
        with new True show ?thesis by (simp add: merged_value_def)
      next
        case v: True
        from deepMerge_succeeds[OF array_free_target_at[OF T(1)]]
        obtain r where r: "deepMerge (target_at T k) v = Inr (JObj r)" by blast
        with new v have w: "w = JObj r" by (simp add: merged_value_def)
        from IH[OF new(1) v array_free_target_at[OF T(1)] wf_target_at[OF T(2)] r]
        have "deepMerge (target_at T k) (JObj r) = Inr (JObj r)" .
        then show ?thesis by (simp add: merged_value_def w is_mapping_def)
      qed
    qed
  qed
  have "foldl (store T) ?X ?R = foldl (\<lambda>acc kv. AList.update (fst kv) (snd kv) acc) ?X ?R"
    by (rule foldl_cong) (auto simp: store_def fixp)
  also have "\<dots> = ?R"
  proof -
    from foldl_store_keys_prefix[of T ?X E] obtain ys where ys: "map fst ?R = map fst ?X @ ys"
      by blast
    then have "length (map fst ?R) = length (map fst ?X @ ys)" by (simp only:)
    then have len: "length ?X \<le> length ?R" by simp
    from ys have tk: "map fst ?X = take (length ?X) (map fst ?R)" by simp
    have dist: "distinct (map fst ([] @ ?R))"
      using foldl_store_distinct[OF spread_distinct[OF T(2)]] by simp
    from foldl_update_self[OF dist tk len] show ?thesis by simp
  qed
  finally show ?thesis .
qed

lemma merge_idem_finish:
  assumes "array_free T" and "deepMerge T S = Inr R"
    and "foldl (store T) (spread T) (foldl (store T) (spread T) (source_entries S))
          = foldl (store T) (spread T) (source_entries S)"
  shows "deepMerge T R = Inr R"
proof -
  let ?r = "foldl (store T) (spread T) (source_entries S)"
  from assms(2)[symmetric] deepMerge_closed[OF assms(1), of S]
  have "Inr R = (Inr (JObj ?r) :: js_error + jv)" by (rule trans)
  then have R: "R = JObj ?r" by simp
  have "deepMerge T (JObj ?r) = Inr (JObj (foldl (store T) (spread T) (source_entries (JObj ?r))))"
    by (rule deepMerge_closed[OF assms(1)])
  with assms(3) show ?thesis unfolding R by simp
qed

lemma merge_idem:
  "wf_jv S \<Longrightarrow> array_free T \<Longrightarrow> wf_jv T \<Longrightarrow> deepMerge T S = Inr R \<Longrightarrow> deepMerge T R = Inr R"
proof (induction S arbitrary: T R)
  case (JObj kvs)
  have "foldl (store T) (spread T) (foldl (store T) (spread T) kvs) = foldl (store T) (spread T) kvs"
  proof (rule merge_idem_step[OF JObj.prems(2,3)])
    show "distinct (map fst kvs)" using JObj.prems(1) by simp
  next
    fix k v T' R'
    assume "(k, v) \<in> set kvs" "is_mapping v" "array_free T'" "wf_jv T'" "deepMerge T' v = Inr R'"
    with JObj.IH[of "(k, v)" v T' R'] JObj.prems(1) show "deepMerge T' R' = Inr R'" by auto
  qed
  then show ?case
    by (intro merge_idem_finish[OF JObj.prems(2) JObj.prems(4)]) simp
next
  case (JArr xs)
  have "foldl (store T) (spread T) (foldl (store T) (spread T) (indexed 0 xs))
      = foldl (store T) (spread T) (indexed 0 xs)"
  proof (rule merge_idem_step[OF JArr.prems(2,3)])
    show "distinct (map fst (indexed 0 xs))" by (rule distinct_indexed)
  next
    fix k v T' R'
    assume "(k, v) \<in> set (indexed 0 xs)" "is_mapping v" "array_free T'" "wf_jv T'" "deepMerge T' v = Inr R'"
    with JArr.IH[of v T' R'] JArr.prems(1) show "deepMerge T' R' = Inr R'"
      by (auto dest!: indexed_mem)
  qed
  then show ?case
    by (intro merge_idem_finish[OF JArr.prems(2) JArr.prems(4)]) simp
next
  case JUndefined
  have "foldl (store T) (spread T) (foldl (store T) (spread T) []) = foldl (store T) (spread T) []"
    by (rule merge_idem_step[OF JUndefined.prems(2,3)]) simp_all
  then show ?case
    by (intro merge_idem_finish[OF JUndefined.prems(2) JUndefined.prems(4)]) simp
next
  case JNull
  have "foldl (store T) (spread T) (foldl (store T) (spread T) []) = foldl (store T) (spread T) []"
    by (rule merge_idem_step[OF JNull.prems(2,3)]) simp_all
  then show ?case
    by (intro merge_idem_finish[OF JNull.prems(2) JNull.prems(4)]) simp
next
  case (JBool b)
  have "foldl (store T) (spread T) (foldl (store T) (spread T) []) = foldl (store T) (spread T) []"
    by (rule merge_idem_step[OF JBool.prems(2,3)]) simp_all
  then show ?case
    by (intro merge_idem_finish[OF JBool.prems(2) JBool.prems(4)]) simp
next
  case (JNum n)
  have "foldl (store T) (spread T) (foldl (store T) (spread T) []) = foldl (store T) (spread T) []"
    by (rule merge_idem_step[OF JNum.prems(2,3)]) simp_all
  then show ?case
    by (intro merge_idem_finish[OF JNum.prems(2) JNum.prems(4)]) simp
next
  case (JStr s)
  have "foldl (store T) (spread T) (foldl (store T) (spread T) []) = foldl (store T) (spread T) []"
    by (rule merge_idem_step[OF JStr.prems(2,3)]) simp_all
  then show ?case
    by (intro merge_idem_finish[OF JStr.prems(2) JStr.prems(4)]) simp
qed


section \<open>Properties of the display-text deriver\<close>

lemma ToNumber_default_decimals:
  "ToNumber B (get_prop (get_prop DEFAULT_CONFIG ''number'') ''decimals'') = Fin 1"
  by (simp add: DEFAULT_CONFIG_def)

lemma format_number_spec:
  "format_number B st parsed =
     (if isInteger (spec_decimals B st) \<and> ge_zero (spec_decimals B st)
      then toFixed B parsed (spec_decimals B st) else Inr (ToString B (JNum parsed)))"
  by (auto simp: format_number_def spec_decimals_def Let_def js_coalesce_def DEFAULT_CONFIG_def)

lemma compute_entity_present:
  assumes "truthy (hasEntityId st)" and "truthy (hassStates st)" and "truthy (entity_state B st)"
  shows "map_sum id state_display_text (computeDisplayTexts B st) =
     (if \<not> isFinite (ToNumber B (get_prop (entity_state B st) ''state''))
      then Inr (ToString B (get_prop (entity_state B st) ''state''))
      else format_number B st (ToNumber B (get_prop (entity_state B st) ''state'')))"
  using assms
  by (simp add: computeDisplayTexts_def hasEntityId_def entity_state_def Let_def split: sum.splits)



lemma compute_static:
  assumes "\<not> truthy (hasEntityId st)"
  shows "\<exists>t. computeDisplayTexts B st = Inr t
     \<and> state_display_text t = ToString B (js_coalesce (opt_get (config st) ''text'') (JStr []))"
  using assms
  by (simp add: computeDisplayTexts_def hasEntityId_def Let_def)


section \<open>Properties of the font loader\<close>
















section \<open>Properties of the template resolver\<close>

lemma get_prop_update:
  "get_prop (JObj (AList.update k v kvs)) k' = (if k' = k then v else get_prop (JObj kvs) k')"
  by (simp add: update_conv')

lemma ensure_group_ok:
  assumes "shadowConfig st = JObj kvs" and "group_ok (get_prop (JObj kvs) grp)"
  shows "\<exists>g kvs'. ensure_group st grp = Inr (st\<lparr>shadowConfig := JObj kvs'\<rparr>)
      \<and> get_prop (JObj kvs') grp = JObj g
      \<and> (if truthy (get_prop (JObj kvs) grp) then get_prop (JObj kvs) grp = JObj g else g = [])
      \<and> (\<forall>g'. g' \<noteq> grp \<longrightarrow> get_prop (JObj kvs') g' = get_prop (JObj kvs) g')"
proof (cases "truthy (get_prop (JObj kvs) grp)")
  case True
  with assms(2) obtain g where g: "get_prop (JObj kvs) grp = JObj g"
    by (auto simp: group_ok_def is_mapping_iff)
  show ?thesis
    apply (rule exI[of _ g], rule exI[of _ "AList.update grp (JObj g) kvs"])
    using g assms(1) by (simp add: ensure_group_def js_or_def update_conv')
next
  case False
  show ?thesis
    apply (rule exI[of _ "[]"], rule exI[of _ "AList.update grp (JObj []) kvs"])
    using False assms(1) by (simp add: ensure_group_def js_or_def update_conv')
qed

lemma set_shadow_ok:
  assumes "shadowConfig st = JObj kvs" and "get_prop (JObj kvs) grp = JObj g"
  shows "\<exists>kvs'. set_shadow st grp key v = Inr (st\<lparr>shadowConfig := JObj kvs'\<rparr>)
      \<and> get_prop (get_prop (JObj kvs') grp) key = v
      \<and> is_mapping (get_prop (JObj kvs') grp)
      \<and> (\<forall>g'. g' \<noteq> grp \<longrightarrow> get_prop (JObj kvs') g' = get_prop (JObj kvs) g')"
  apply (rule exI[of _ "AList.update grp (JObj (AList.update key v g)) kvs"])
  using assms by (simp add: set_shadow_def update_conv' is_mapping_def)

lemma is_template_str: "is_template v \<Longrightarrow> \<exists>t. v = JStr t"
  by (cases v) simp_all

lemma template_truthy: "is_template v \<Longrightarrow> truthy v"
  by (cases v) (auto)

lemma record_call_eq:
  "host_call st t \<noteq> None \<Longrightarrow> record_call st t = st\<lparr>api_log := api_log st @ [t]\<rparr>"
  by (simp add: record_call_def)

lemma host_call_shadow [simp]: "host_call (st\<lparr>shadowConfig := sc\<rparr>) t = host_call st t"
  by (simp add: host_call_def)

text \<open>What a block of the resolver may write: the shadow field of its group, and the call log.\<close>

lemma write_field:
  assumes "shadowConfig st = JObj kvs" and "get_prop (JObj kvs) grp = JObj g"
  shows "\<exists>kvs'. set_shadow (st\<lparr>api_log := lg\<rparr>) grp key v = Inr (st\<lparr>shadowConfig := JObj kvs', api_log := lg\<rparr>)
      \<and> get_prop (get_prop (JObj kvs') grp) key = v
      \<and> group_ok (get_prop (JObj kvs') grp)
      \<and> (\<forall>g'. g' \<noteq> grp \<longrightarrow> get_prop (JObj kvs') g' = get_prop (JObj kvs) g')"
  apply (rule exI[of _ "AList.update grp (JObj (AList.update key v g)) kvs"])
  using assms by (simp add: set_shadow_def update_conv' is_mapping_def group_ok_def)

lemma text_block:
  assumes sc: "shadowConfig st = JObj kvs" and ok: "group_ok (get_prop (JObj kvs) grp)"
  shows "\<exists>kvs' calls. apply_text_template st grp
        = Inr (st\<lparr>shadowConfig := JObj kvs', api_log := api_log st @ calls\<rparr>)
      \<and> (\<forall>t \<in> set calls. is_template (JStr t))
      \<and> (\<forall>g'. g' \<noteq> grp \<longrightarrow> get_prop (JObj kvs') g' = get_prop (JObj kvs) g')
      \<and> group_ok (get_prop (JObj kvs') grp)
      \<and> (\<forall>s. config_value st grp ''text'' = JStr s \<and> \<not> is_template (JStr s)
             \<longrightarrow> get_prop (get_prop (JObj kvs') grp) ''text'' = JStr s \<and> calls = [])"
proof (cases "truthy (get_prop (config st) grp)")
  case False
  have "st\<lparr>shadowConfig := JObj kvs, api_log := api_log st @ []\<rparr> = st"
    using sc by simp
  moreover have "config_value st grp ''text'' \<noteq> JStr s" for s
    using False by (cases "get_prop (config st) grp") (auto simp: config_value_def str_entries_def)
  ultimately show ?thesis
    apply (intro exI[of _ kvs] exI[of _ "[]"])
    using False ok by (simp add: apply_text_template_def)
next
  case True
  from ensure_group_ok[OF sc ok]
  obtain g kvs1 where e: "ensure_group st grp = Inr (st\<lparr>shadowConfig := JObj kvs1\<rparr>)"
    and g: "get_prop (JObj kvs1) grp = JObj g"
    and fr1: "\<forall>g'. g' \<noteq> grp \<longrightarrow> get_prop (JObj kvs1) g' = get_prop (JObj kvs) g'"
    by blast
  let ?st1 = "st\<lparr>shadowConfig := JObj kvs1\<rparr>"
  let ?txt = "get_prop (get_prop (config st) grp) ''text''"
  have sc1: "shadowConfig ?st1 = JObj kvs1" by simp
  note w = write_field[OF sc1 g, of _ "''text''"]
  have st1_log: "?st1\<lparr>api_log := api_log st\<rparr> = ?st1" by simp
  show ?thesis
  proof (cases "truthy ?txt \<and> is_template ?txt")
    case plain: False
    from w[of "api_log st" ?txt] obtain kvs' where
      r: "set_shadow ?st1 grp ''text'' ?txt = Inr (?st1\<lparr>shadowConfig := JObj kvs', api_log := api_log st\<rparr>)"
      and v: "get_prop (get_prop (JObj kvs') grp) ''text'' = ?txt"
      and gk: "group_ok (get_prop (JObj kvs') grp)"
      and fr: "\<forall>g'. g' \<noteq> grp \<longrightarrow> get_prop (JObj kvs') g' = get_prop (JObj kvs1) g'"
      unfolding st1_log by blast
    show ?thesis
      apply (intro exI[of _ kvs'] exI[of _ "[]"])
      using True e plain r v gk fr fr1
      by (auto simp: apply_text_template_def config_value_def)
  next
    case tpl: True
    then obtain t where t: "?txt = JStr t" using is_template_str by blast
    have nplain: "config_value st grp ''text'' = JStr s \<Longrightarrow> is_template (JStr s)" for s
      using tpl by (simp add: config_value_def)
    show ?thesis
    proof (cases "host_call st t")
      case None
      let ?v = "js_or (get_prop (get_prop (shadowConfig ?st1) grp) ''text'') ?txt"
      from w[of "api_log st" ?v] obtain kvs' where
        r: "set_shadow ?st1 grp ''text'' ?v = Inr (?st1\<lparr>shadowConfig := JObj kvs', api_log := api_log st\<rparr>)"
        and gk: "group_ok (get_prop (JObj kvs') grp)"
        and fr: "\<forall>g'. g' \<noteq> grp \<longrightarrow> get_prop (JObj kvs') g' = get_prop (JObj kvs1) g'"
        unfolding st1_log by blast
      show ?thesis
        apply (intro exI[of _ kvs'] exI[of _ "[]"])
        using True e tpl t None r gk fr fr1 nplain
        by (auto simp: apply_text_template_def keep_or_raw_def)
    next
      case (Some res)
      then have rc: "record_call ?st1 t = ?st1\<lparr>api_log := api_log st @ [t]\<rparr>"
        by (simp add: record_call_def)
      let ?v = "case rendered_string res of Some r \<Rightarrow> JStr r
                | None \<Rightarrow> js_or (get_prop (get_prop (shadowConfig ?st1) grp) ''text'') ?txt"
      from w[of "api_log st @ [t]" ?v] obtain kvs' where
        r: "set_shadow (?st1\<lparr>api_log := api_log st @ [t]\<rparr>) grp ''text'' ?v
            = Inr (?st1\<lparr>shadowConfig := JObj kvs', api_log := api_log st @ [t]\<rparr>)"
        and gk: "group_ok (get_prop (JObj kvs') grp)"
        and fr: "\<forall>g'. g' \<noteq> grp \<longrightarrow> get_prop (JObj kvs') g' = get_prop (JObj kvs1) g'"
        by blast
      have tt: "is_template (JStr t)" using tpl t by simp
      show ?thesis
        apply (intro exI[of _ kvs'] exI[of _ "[t]"])
        using True e tpl t Some rc r gk fr fr1 nplain tt
        by (auto simp: apply_text_template_def keep_or_raw_def split: option.splits)
    qed
  qed
qed

lemma falsy_prop: "\<not> truthy v \<Longrightarrow> \<not> truthy (get_prop v k)"
  by (cases v) (auto simp: str_entries_def)

lemma card_block:
  assumes sc: "shadowConfig st = JObj kvs" and ok: "group_ok (get_prop (JObj kvs) ''card'')"
  shows "\<exists>kvs' calls. apply_card_template st
        = Inr (st\<lparr>shadowConfig := JObj kvs', api_log := api_log st @ calls\<rparr>)
      \<and> (\<forall>t \<in> set calls. is_template (JStr t))
      \<and> (\<forall>g'. g' \<noteq> ''card'' \<longrightarrow> get_prop (JObj kvs') g' = get_prop (JObj kvs) g')
      \<and> group_ok (get_prop (JObj kvs') ''card'')
      \<and> (\<forall>s. config_value st ''card'' ''background'' = JStr s \<and> \<not> is_template (JStr s)
               \<and> (s \<noteq> [] \<or> \<not> truthy (shadow_value st ''card'' ''background''))
             \<longrightarrow> get_prop (get_prop (JObj kvs') ''card'') ''background'' = JStr s \<and> calls = [])"
proof (cases "truthy (get_prop (config st) ''card'')")
  case False
  have "st\<lparr>shadowConfig := JObj kvs, api_log := api_log st @ []\<rparr> = st"
    using sc by simp
  moreover have "config_value st ''card'' ''background'' \<noteq> JStr s" for s
    using False by (cases "get_prop (config st) ''card''") (auto simp: config_value_def str_entries_def)
  ultimately show ?thesis
    apply (intro exI[of _ kvs] exI[of _ "[]"])
    using False ok by (simp add: apply_card_template_def)
next
  case True
  from ensure_group_ok[OF sc ok]
  obtain g kvs1 where e: "ensure_group st ''card'' = Inr (st\<lparr>shadowConfig := JObj kvs1\<rparr>)"
    and g: "get_prop (JObj kvs1) ''card'' = JObj g"
    and og: "if truthy (get_prop (JObj kvs) ''card'') then get_prop (JObj kvs) ''card'' = JObj g else g = []"
    and fr1: "\<forall>g'. g' \<noteq> ''card'' \<longrightarrow> get_prop (JObj kvs1) g' = get_prop (JObj kvs) g'"
    by blast
  let ?st1 = "st\<lparr>shadowConfig := JObj kvs1\<rparr>"
  let ?tpl = "get_prop (get_prop (config st) ''card'') ''background''"
  let ?prev = "get_prop (JObj g) ''background''"
  have prev: "truthy ?prev \<longleftrightarrow> truthy (shadow_value st ''card'' ''background'')"
  proof (cases "truthy (get_prop (JObj kvs) ''card'')")
    case True
    with og show ?thesis by (simp add: shadow_value_def sc)
  next
    case False
    from falsy_prop[OF this, of "''background''"] og False
    show ?thesis by (simp add: shadow_value_def sc)
  qed
  have cfg1: "js_or (get_prop (config st) ''card'') (JObj []) = get_prop (config st) ''card''"
    using True by (simp add: js_or_def)
  have sc1: "shadowConfig ?st1 = JObj kvs1" by simp
  note w = write_field[OF sc1 g, of _ "''background''"]
  have st1_log: "?st1\<lparr>api_log := api_log st\<rparr> = ?st1" by simp
  have gok1: "group_ok (get_prop (JObj kvs1) ''card'')"
    using g by (simp add: group_ok_def is_mapping_def)
  show ?thesis
  proof (cases "\<not> truthy ?tpl \<and> truthy ?prev")
    case skip: True
    have s1: "st\<lparr>shadowConfig := JObj kvs1, api_log := api_log st @ []\<rparr> = ?st1" by simp
    have "\<not> (config_value st ''card'' ''background'' = JStr s \<and> \<not> is_template (JStr s)
               \<and> (s \<noteq> [] \<or> \<not> truthy (shadow_value st ''card'' ''background'')))" for s
      using skip prev by (auto simp: config_value_def)
    then show ?thesis
      apply (intro exI[of _ kvs1] exI[of _ "[]"])
      using True e skip g fr1 gok1
      by (auto simp: apply_card_template_def cfg1 Let_def simp del: get_prop.simps)
  next
    case go: False
    show ?thesis
    proof (cases "is_template ?tpl")
      case plain: False
      from w[of "api_log st" ?tpl] obtain kvs' where
        r: "set_shadow ?st1 ''card'' ''background'' ?tpl
            = Inr (?st1\<lparr>shadowConfig := JObj kvs', api_log := api_log st\<rparr>)"
        and v: "get_prop (get_prop (JObj kvs') ''card'') ''background'' = ?tpl"
        and gk: "group_ok (get_prop (JObj kvs') ''card'')"
        and fr: "\<forall>g'. g' \<noteq> ''card'' \<longrightarrow> get_prop (JObj kvs') g' = get_prop (JObj kvs1) g'"
        unfolding st1_log by blast
      show ?thesis
        apply (intro exI[of _ kvs'] exI[of _ "[]"])
        using True e go plain r v gk fr fr1 g
        by (auto simp: apply_card_template_def cfg1 Let_def config_value_def simp del: get_prop.simps)
    next
      case tpl: True
      then obtain t where t: "?tpl = JStr t" using is_template_str by blast
      have nplain: "config_value st ''card'' ''background'' = JStr s \<Longrightarrow> is_template (JStr s)" for s
        using tpl by (simp add: config_value_def)
      have tt: "is_template (JStr t)" using tpl t by simp
      show ?thesis
      proof (cases "host_call st t")
        case None
        let ?v = "js_or (get_prop (get_prop (shadowConfig ?st1) ''card'') ''background'') ?tpl"
        from w[of "api_log st" ?v] obtain kvs' where
          r: "set_shadow ?st1 ''card'' ''background'' ?v
              = Inr (?st1\<lparr>shadowConfig := JObj kvs', api_log := api_log st\<rparr>)"
          and gk: "group_ok (get_prop (JObj kvs') ''card'')"
          and fr: "\<forall>g'. g' \<noteq> ''card'' \<longrightarrow> get_prop (JObj kvs') g' = get_prop (JObj kvs1) g'"
          unfolding st1_log by blast
        show ?thesis
          apply (intro exI[of _ kvs'] exI[of _ "[]"])
          using True e go tpl t None r gk fr fr1 nplain g
          by (auto simp: apply_card_template_def cfg1 Let_def keep_or_raw_def simp del: get_prop.simps)
      next
        case (Some res)
        then have rc: "record_call ?st1 t = ?st1\<lparr>api_log := api_log st @ [t]\<rparr>"
          by (simp add: record_call_def)
        let ?fb = "js_or (get_prop (get_prop (shadowConfig ?st1) ''card'') ''background'') ?tpl"
        let ?v = "case rendered_string res of
                    Some r \<Rightarrow> if trim r \<noteq> [] then JStr (trim r) else ?fb
                  | None \<Rightarrow> ?fb"
        from w[of "api_log st @ [t]" ?v] obtain kvs' where
          r: "set_shadow (?st1\<lparr>api_log := api_log st @ [t]\<rparr>) ''card'' ''background'' ?v
              = Inr (?st1\<lparr>shadowConfig := JObj kvs', api_log := api_log st @ [t]\<rparr>)"
          and gk: "group_ok (get_prop (JObj kvs') ''card'')"
          and fr: "\<forall>g'. g' \<noteq> ''card'' \<longrightarrow> get_prop (JObj kvs') g' = get_prop (JObj kvs1) g'"
          by blast
        show ?thesis
          apply (intro exI[of _ kvs'] exI[of _ "[t]"])
          using True e go tpl t Some rc r gk fr fr1 nplain tt g
          by (auto simp: apply_card_template_def cfg1 Let_def keep_or_raw_def simp del: get_prop.simps split: option.splits)
      qed
    qed
  qed
qed

lemma applyTemplates_ok:
  assumes cfg: "truthy (config st)" and ok: "shadow_ok st"
  shows "\<exists>kvs' calls. applyTemplates st
        = Inr (st\<lparr>shadowConfig := JObj kvs', api_log := api_log st @ calls\<rparr>)
      \<and> (\<forall>t \<in> set calls. is_template (JStr t))
      \<and> (\<forall>s. config_value st ''card'' ''background'' = JStr s \<and> \<not> is_template (JStr s)
               \<and> (s \<noteq> [] \<or> \<not> truthy (shadow_value st ''card'' ''background''))
             \<longrightarrow> get_prop (get_prop (JObj kvs') ''card'') ''background'' = JStr s)
      \<and> (\<forall>s. config_value st ''title'' ''text'' = JStr s \<and> \<not> is_template (JStr s)
             \<longrightarrow> get_prop (get_prop (JObj kvs') ''title'') ''text'' = JStr s)
      \<and> (\<forall>s. config_value st ''subtitle'' ''text'' = JStr s \<and> \<not> is_template (JStr s)
             \<longrightarrow> get_prop (get_prop (JObj kvs') ''subtitle'') ''text'' = JStr s)"
proof -
  from ok obtain kvs where sc: "shadowConfig st = JObj kvs"
    and okc: "group_ok (get_prop (JObj kvs) ''card'')"
    and okt: "group_ok (get_prop (JObj kvs) ''title'')"
    and oks: "group_ok (get_prop (JObj kvs) ''subtitle'')"
    by (auto simp: shadow_ok_def is_mapping_iff simp del: get_prop.simps)
  from card_block[OF sc okc] obtain k1 c1 where
    r1: "apply_card_template st = Inr (st\<lparr>shadowConfig := JObj k1, api_log := api_log st @ c1\<rparr>)"
    and t1: "\<forall>t \<in> set c1. is_template (JStr t)"
    and f1: "\<forall>g'. g' \<noteq> ''card'' \<longrightarrow> get_prop (JObj k1) g' = get_prop (JObj kvs) g'"
    and v1: "\<forall>s. config_value st ''card'' ''background'' = JStr s \<and> \<not> is_template (JStr s)
               \<and> (s \<noteq> [] \<or> \<not> truthy (shadow_value st ''card'' ''background''))
             \<longrightarrow> get_prop (get_prop (JObj k1) ''card'') ''background'' = JStr s \<and> c1 = []"
    by blast
  let ?st1 = "st\<lparr>shadowConfig := JObj k1, api_log := api_log st @ c1\<rparr>"
  have sc1: "shadowConfig ?st1 = JObj k1" by simp
  have okt1: "group_ok (get_prop (JObj k1) ''title'')" using f1 okt by simp
  from text_block[OF sc1 okt1] obtain k2 c2 where
    r2: "apply_text_template ?st1 ''title''
          = Inr (?st1\<lparr>shadowConfig := JObj k2, api_log := api_log ?st1 @ c2\<rparr>)"
    and t2: "\<forall>t \<in> set c2. is_template (JStr t)"
    and f2: "\<forall>g'. g' \<noteq> ''title'' \<longrightarrow> get_prop (JObj k2) g' = get_prop (JObj k1) g'"
    and v2: "\<forall>s. config_value ?st1 ''title'' ''text'' = JStr s \<and> \<not> is_template (JStr s)
             \<longrightarrow> get_prop (get_prop (JObj k2) ''title'') ''text'' = JStr s \<and> c2 = []"
    by blast
  let ?st2 = "?st1\<lparr>shadowConfig := JObj k2, api_log := api_log ?st1 @ c2\<rparr>"
  have sc2: "shadowConfig ?st2 = JObj k2" by simp
  have oks2: "group_ok (get_prop (JObj k2) ''subtitle'')" using f1 f2 oks by simp
  from text_block[OF sc2 oks2] obtain k3 c3 where
    r3: "apply_text_template ?st2 ''subtitle''
          = Inr (?st2\<lparr>shadowConfig := JObj k3, api_log := api_log ?st2 @ c3\<rparr>)"
    and t3: "\<forall>t \<in> set c3. is_template (JStr t)"
    and f3: "\<forall>g'. g' \<noteq> ''subtitle'' \<longrightarrow> get_prop (JObj k3) g' = get_prop (JObj k2) g'"
    and v3: "\<forall>s. config_value ?st2 ''subtitle'' ''text'' = JStr s \<and> \<not> is_template (JStr s)
             \<longrightarrow> get_prop (get_prop (JObj k3) ''subtitle'') ''text'' = JStr s \<and> c3 = []"
    by blast
  have fin: "?st2\<lparr>shadowConfig := JObj k3, api_log := api_log ?st2 @ c3\<rparr>
      = st\<lparr>shadowConfig := JObj k3, api_log := api_log st @ (c1 @ c2 @ c3)\<rparr>"
    by simp
  have run: "applyTemplates st = Inr (st\<lparr>shadowConfig := JObj k3, api_log := api_log st @ (c1 @ c2 @ c3)\<rparr>)"
    using cfg sc r1 r2 r3 unfolding fin[symmetric]
    by (simp add: applyTemplates_def)
  have cv1: "config_value ?st1 g k = config_value st g k" for g k
    by (simp add: config_value_def)
  have cv2: "config_value ?st2 g k = config_value st g k" for g k
    by (simp add: config_value_def)
  have c3card: "get_prop (JObj k3) ''card'' = get_prop (JObj k1) ''card''"
    using f2 f3 by simp
  have c3title: "get_prop (JObj k3) ''title'' = get_prop (JObj k2) ''title''"
    using f3 by simp
  show ?thesis
  proof (intro exI[of _ k3] exI[of _ "c1 @ c2 @ c3"] conjI allI impI ballI)
    show "applyTemplates st = Inr (st\<lparr>shadowConfig := JObj k3, api_log := api_log st @ c1 @ c2 @ c3\<rparr>)"
      by (rule run)
  next
    fix t assume "t \<in> set (c1 @ c2 @ c3)"
    then have "t \<in> set c1 \<or> t \<in> set c2 \<or> t \<in> set c3" by simp
    with t1 t2 t3 show "is_template (JStr t)" by blast
  next
    fix s
    assume "config_value st ''card'' ''background'' = JStr s \<and> \<not> is_template (JStr s)
               \<and> (s \<noteq> [] \<or> \<not> truthy (shadow_value st ''card'' ''background''))"
    with v1 show "get_prop (get_prop (JObj k3) ''card'') ''background'' = JStr s"
      unfolding c3card by blast
  next
    fix s
    assume "config_value st ''title'' ''text'' = JStr s \<and> \<not> is_template (JStr s)"
    with v2 show "get_prop (get_prop (JObj k3) ''title'') ''text'' = JStr s"
      unfolding c3title cv1 by blast
  next
    fix s
    assume "config_value st ''subtitle'' ''text'' = JStr s \<and> \<not> is_template (JStr s)"
    with v3 show "get_prop (get_prop (JObj k3) ''subtitle'') ''text'' = JStr s"
      unfolding cv2 by blast
  qed
qed


section \<open>Properties of a render pass\<close>

lemma frame_refl: "resolver_frame st st"
  by (simp add: resolver_frame_def)

lemma frame_trans: "resolver_frame a b \<Longrightarrow> resolver_frame b c \<Longrightarrow> resolver_frame a c"
  unfolding resolver_frame_def
  by (metis (no_types, lifting) card_state.surjective card_state.update_convs(2) card_state.update_convs(14))

lemma frame_shadow: "resolver_frame st (st\<lparr>shadowConfig := sc\<rparr>)"
  by (simp add: resolver_frame_def)

lemma set_shadow_frame: "set_shadow st g k v = Inr st' \<Longrightarrow> resolver_frame st st'"
  by (auto simp: set_shadow_def resolver_frame_def split: sum.splits)

lemma ensure_group_frame: "ensure_group st g = Inr st' \<Longrightarrow> resolver_frame st st'"
  by (auto simp: ensure_group_def resolver_frame_def split: sum.splits)

lemma record_call_frame: "resolver_frame st (record_call st t)"
  by (simp add: record_call_def resolver_frame_def)

lemma keep_or_raw_frame: "keep_or_raw st g k v = Inr st' \<Longrightarrow> resolver_frame st st'"
  unfolding keep_or_raw_def by (rule set_shadow_frame)

lemma text_template_frame:
  assumes "apply_text_template st g = Inr st'"
  shows "resolver_frame st st'"
proof (cases "truthy (get_prop (config st) g)")
  case False
  with assms show ?thesis by (simp add: apply_text_template_def frame_refl)
next
  case True
  with assms obtain st1 where e: "ensure_group st g = Inr st1"
    by (auto simp: apply_text_template_def split: sum.splits)
  note f1 = ensure_group_frame[OF e]
  have "resolver_frame st1 st'"
    using assms True e
    by (auto simp: apply_text_template_def Let_def
        split: jv.splits option.splits if_splits
        intro: set_shadow_frame keep_or_raw_frame frame_refl
          frame_trans[OF record_call_frame set_shadow_frame]
          frame_trans[OF record_call_frame keep_or_raw_frame])
  with f1 show ?thesis by (rule frame_trans)
qed

lemma card_template_frame:
  assumes "apply_card_template st = Inr st'"
  shows "resolver_frame st st'"
proof (cases "truthy (get_prop (config st) ''card'')")
  case False
  with assms show ?thesis by (simp add: apply_card_template_def frame_refl)
next
  case True
  with assms obtain st1 where e: "ensure_group st ''card'' = Inr st1"
    by (auto simp: apply_card_template_def split: sum.splits)
  note f1 = ensure_group_frame[OF e]
  have "resolver_frame st1 st'"
    using assms True e
    by (auto simp: apply_card_template_def Let_def
        split: jv.splits option.splits if_splits
        intro: set_shadow_frame keep_or_raw_frame frame_refl
          frame_trans[OF record_call_frame set_shadow_frame]
          frame_trans[OF record_call_frame keep_or_raw_frame])
  with f1 show ?thesis by (rule frame_trans)
qed

lemma applyTemplates_frame:
  assumes "applyTemplates st = Inr st'"
  shows "resolver_frame st st'"
proof (cases "truthy (config st)")
  case False
  with assms show ?thesis by (simp add: applyTemplates_def frame_refl)
next
  case True
  from assms True obtain st0 st1 st2 where
    s0: "resolver_frame st st0" and
    r1: "apply_card_template st0 = Inr st1" and
    r2: "apply_text_template st1 ''title'' = Inr st2" and
    r3: "apply_text_template st2 ''subtitle'' = Inr st'"
    by (auto simp: applyTemplates_def split: sum.splits if_splits intro: frame_refl frame_shadow)
  from s0 card_template_frame[OF r1] text_template_frame[OF r2] text_template_frame[OF r3]
  show ?thesis by (blast intro: frame_trans)
qed

lemma text_indep:
  assumes "config a = config b" and "hass a = hass b"
  shows "map_sum id state_display_text (computeDisplayTexts B a)
       = map_sum id state_display_text (computeDisplayTexts B b)"
  using assms
  by (simp add: computeDisplayTexts_def hassStates_def format_number_def Let_def split: sum.splits)

lemma loadFont_fields [simp]:
  "config (loadFont B f st) = config st"
  "shadowConfig (loadFont B f st) = shadowConfig st"
  "hass (loadFont B f st) = hass st"
  "previousDisplayValue (loadFont B f st) = previousDisplayValue st"
  "content (loadFont B f st) = content st"
  "number_el (loadFont B f st) = number_el st"
  "dom_log (loadFont B f st) = dom_log st"
  "api_log (loadFont B f st) = api_log st"
  "now (loadFont B f st) = now st"
  "timers (loadFont B f st) = timers st"
  by (simp_all add: loadFont_def Let_def)

lemma number_span_loadFont [simp]: "number_span (loadFont B f st) = number_span st"
  by (simp add: number_span_def)

lemma set_text_fields [simp]:
  "config (set_text v st) = config st"
  "hass (set_text v st) = hass st"
  "previousDisplayValue (set_text v st) = previousDisplayValue st"
  "content (set_text v st) = content st"
  "number_el (set_text v st) = Some ((number_span st)\<lparr>textContent := v\<rparr>)"
  "dom_log (set_text v st) = dom_log st @ [TextSet v]"
  "api_log (set_text v st) = api_log st"
  "now (set_text v st) = now st"
  "timers (set_text v st) = timers st"
  by (simp_all add: set_text_def)

text \<open>The first display of a value: no previous value, so the text is set at once.\<close>

lemma updateNumberDisplay_first:
  assumes "previousDisplayValue st = None"
  shows "previousDisplayValue (updateNumberDisplay B txt u st) = Some txt"
    and "dom_log (updateNumberDisplay B txt u st) = dom_log st @ [TextSet txt]"
    and "number_el (updateNumberDisplay B txt u st) = Some ((number_span st)\<lparr>textContent := txt\<rparr>)"
    and "config (updateNumberDisplay B txt u st) = config st"
    and "hass (updateNumberDisplay B txt u st) = hass st"
    and "api_log (updateNumberDisplay B txt u st) = api_log st"
    and "timers (updateNumberDisplay B txt u st) = timers st"
    and "content (updateNumberDisplay B txt u st) = content st"
  using assms by (simp_all add: updateNumberDisplay_def Let_def number_span_def)

lemma label_update_fields:
  "config (snd (label_update B g t st)) = config st"
  "hass (snd (label_update B g t st)) = hass st"
  "previousDisplayValue (snd (label_update B g t st)) = previousDisplayValue st"
  "number_el (snd (label_update B g t st)) = number_el st"
  "dom_log (snd (label_update B g t st)) = dom_log st"
  "api_log (snd (label_update B g t st)) = api_log st"
  "timers (snd (label_update B g t st)) = timers st"
  "content (snd (label_update B g t st)) = content st"
  by (simp_all add: label_update_def Let_def)

lemma updateTitleAndSubtitle_fields [simp]:
  "config (updateTitleAndSubtitle B t s st) = config st"
  "hass (updateTitleAndSubtitle B t s st) = hass st"
  "previousDisplayValue (updateTitleAndSubtitle B t s st) = previousDisplayValue st"
  "number_el (updateTitleAndSubtitle B t s st) = number_el st"
  "dom_log (updateTitleAndSubtitle B t s st) = dom_log st"
  "api_log (updateTitleAndSubtitle B t s st) = api_log st"
  "timers (updateTitleAndSubtitle B t s st) = timers st"
  by (simp_all add: updateTitleAndSubtitle_def Let_def split_beta label_update_fields)

lemma class_fields [simp]:
  "number_el (class_reset st) = Some ((number_span st)\<lparr>classList := []\<rparr>)"
  "dom_log (class_reset st) = dom_log st @ [ClassReset]"
  "timers (class_reset st) = timers st"
  "now (class_reset st) = now st"
  "number_el (class_add c st) = Some ((number_span st)\<lparr>classList :=
           (if c \<in> set (classList (number_span st)) then classList (number_span st)
            else classList (number_span st) @ [c])\<rparr>)"
  "dom_log (class_add c st) = dom_log st @ [ClassAdd c]"
  "timers (class_add c st) = timers st"
  "now (class_add c st) = now st"
  "number_el (class_remove c st) = Some ((number_span st)\<lparr>classList := removeAll c (classList (number_span st))\<rparr>)"
  "dom_log (class_remove c st) = dom_log st @ [ClassRemove c]"
  "timers (class_remove c st) = timers st"
  "now (class_remove c st) = now st"
  by (simp_all add: class_reset_def class_add_def class_remove_def)

lemma setTimeout_fields [simp]:
  "number_el (setTimeout a ms st) = number_el st"
  "dom_log (setTimeout a ms st) = dom_log st"
  "timers (setTimeout a ms st) = timers st @ [(now st + ms, a)]"
  "now (setTimeout a ms st) = now st"
  by (simp_all add: setTimeout_def)

lemma number_span_Some: "number_el st = Some e \<Longrightarrow> number_span st = e"
  by (simp add: number_span_def)

text \<open>The transition that a pending swap timer completes, seen at any later time.\<close>

lemma swap_pending:
  assumes "timers s = [(d, SwapText v co ci)]" and "t < d"
  shows "number_el (advance_to t s) = number_el s"
  using assms by (subst advance_to.simps) simp

lemma swap_done:
  assumes tm: "timers s = [(d, SwapText v co ci)]" and el: "number_el s = Some e"
    and cl: "classList e = [co]" and t: "d \<le> t" "t < d + 300" and nw: "now s \<le> d"
  shows "number_el (advance_to t s) = Some \<lparr>textContent = v, classList = [ci]\<rparr>"
proof -
  let ?s1 = "fire (SwapText v co ci) (s\<lparr>timers := remove1 (d, SwapText v co ci) (timers s), now := max (now s) d\<rparr>)"
  have step: "advance_to t s = advance_to t ?s1"
    using tm t by (subst advance_to.simps) simp
  have t1: "timers ?s1 = [(d + 300, ClearClass ci)]"
    using tm nw by (simp add: max_def)
  have e1: "number_el ?s1 = Some \<lparr>textContent = v, classList = [ci]\<rparr>"
    using el cl by (simp add: number_span_def)
  have "number_el (advance_to t ?s1) = number_el ?s1"
    using t1 t by (subst advance_to.simps) simp
  with step e1 show ?thesis by simp
qed

lemma swap_cleared:
  assumes tm: "timers s = [(d, SwapText v co ci)]" and el: "number_el s = Some e"
    and cl: "classList e = [co]" and t: "d + 300 \<le> t" and nw: "now s \<le> d"
  shows "number_el (advance_to t s) = Some \<lparr>textContent = v, classList = []\<rparr>
       \<and> timers (advance_to t s) = []"
proof -
  let ?s1 = "fire (SwapText v co ci) (s\<lparr>timers := remove1 (d, SwapText v co ci) (timers s), now := max (now s) d\<rparr>)"
  have step: "advance_to t s = advance_to t ?s1"
    using tm t by (subst advance_to.simps) simp
  have t1: "timers ?s1 = [(d + 300, ClearClass ci)]"
    using tm nw by (simp add: max_def)
  have e1: "number_el ?s1 = Some \<lparr>textContent = v, classList = [ci]\<rparr>"
    using el cl by (simp add: number_span_def)
  let ?s2 = "fire (ClearClass ci) (?s1\<lparr>timers := remove1 (d + 300, ClearClass ci) (timers ?s1), now := max (now ?s1) (d + 300)\<rparr>)"
  have step2: "advance_to t ?s1 = advance_to t ?s2"
    using t1 t by (subst advance_to.simps) simp
  have t2: "timers ?s2 = []" using t1 by simp
  have e2: "number_el ?s2 = Some \<lparr>textContent = v, classList = []\<rparr>"
    using e1 by (simp add: number_span_def)
  have fin: "advance_to t ?s2 = ?s2\<lparr>now := max (now ?s2) t\<rparr>"
    using t2 by (subst advance_to.simps) simp
  from step step2 fin e2 t2 show ?thesis by simp
qed

lemma animation_kind:
  assumes "get_prop animationMap kind = JObj m"
  shows "kind \<noteq> ''none''" and "kind \<noteq> []"
  using assms by (auto simp: animationMap_def)

lemma updateNumberDisplay_animated:
  assumes "previousDisplayValue st = Some old" and "old \<noteq> new" and "truthy (config st)"
    and "get_prop (config st) ''animation'' = JStr kind"
    and "get_prop animationMap kind = JObj [(''out'', JStr co), (''in'', JStr ci)]"
    and "number_el st = Some el"
  shows "number_el (updateNumberDisplay B new u st) = Some (el\<lparr>classList := [co]\<rparr>)"
    and "dom_log (updateNumberDisplay B new u st) = dom_log st @ [ClassReset, ClassAdd co]"
    and "timers (updateNumberDisplay B new u st) = timers st @ [(now st + 300, SwapText new co ci)]"
    and "now (updateNumberDisplay B new u st) = now st"
  using assms animation_kind[OF assms(5)]
  by (simp_all add: updateNumberDisplay_def Let_def js_or_def animateValueChange_def number_span_def)

lemma updateNumberDisplay_plain:
  assumes "truthy (config st)"
    and "\<not> truthy (get_prop animationMap (ToString B (get_prop (config st) ''animation'')))"
    and "number_el st = Some el"
  shows "number_el (updateNumberDisplay B new u st) = Some (el\<lparr>textContent := new\<rparr>)"
    and "dom_log (updateNumberDisplay B new u st) = dom_log st @ [TextSet new]"
    and "timers (updateNumberDisplay B new u st) = timers st"
  using assms
  by (simp_all add: updateNumberDisplay_def Let_def js_or_def animateValueChange_def number_span_def)

lemma frame_fields:
  assumes "resolver_frame a b"
  shows "config b = config a" and "hass b = hass a"
    and "previousDisplayValue b = previousDisplayValue a" and "dom_log b = dom_log a"
    and "number_el b = number_el a" and "timers b = timers a" and "content b = content a"
proof -
  let ?b = "a\<lparr>shadowConfig := shadowConfig b, api_log := api_log b\<rparr>"
  from assms have eq: "b = ?b" by (simp add: resolver_frame_def)
  have "config b = config ?b" by (rule arg_cong[OF eq])
  then show "config b = config a" by simp
  have "hass b = hass ?b" by (rule arg_cong[OF eq])
  then show "hass b = hass a" by simp
  have "previousDisplayValue b = previousDisplayValue ?b" by (rule arg_cong[OF eq])
  then show "previousDisplayValue b = previousDisplayValue a" by simp
  have "dom_log b = dom_log ?b" by (rule arg_cong[OF eq])
  then show "dom_log b = dom_log a" by simp
  have "number_el b = number_el ?b" by (rule arg_cong[OF eq])
  then show "number_el b = number_el a" by simp
  have "timers b = timers ?b" by (rule arg_cong[OF eq])
  then show "timers b = timers a" by simp
  have "content b = content ?b" by (rule arg_cong[OF eq])
  then show "content b = content a" by simp
qed

lemma ensureCard_fields [simp]:
  "config (ensureCard st) = config st"
  "hass (ensureCard st) = hass st"
  "previousDisplayValue (ensureCard st) = previousDisplayValue st"
  "dom_log (ensureCard st) = dom_log st"
  "number_el (ensureCard st) = number_el st"
  "timers (ensureCard st) = timers st"
  "api_log (ensureCard st) = api_log st"
  "content (ensureCard st)"
  by (simp_all add: ensureCard_def)

lemma same_text:
  assumes "map_sum id state_display_text x = map_sum id state_display_text y" and "x = Inr t"
  shows "\<exists>t'. y = Inr t' \<and> state_display_text t' = state_display_text t"
  using assms by (cases y) auto

lemma text_after_templates:
  assumes "applyTemplates s = Inr sT" and "computeDisplayTexts B s = Inr t"
  shows "\<exists>t'. computeDisplayTexts B sT = Inr t' \<and> state_display_text t' = state_display_text t"
proof -
  note f = frame_fields[OF applyTemplates_frame[OF assms(1)]]
  from text_indep[of s sT B] f(1,2)
  have "map_sum id state_display_text (computeDisplayTexts B s)
      = map_sum id state_display_text (computeDisplayTexts B sT)" by simp
  from same_text[OF this assms(2)] show ?thesis .
qed

lemma pass_unfold:
  assumes "applyTemplates s = Inr sT" and "computeDisplayTexts B s = Inr t"
    and "computeDisplayTexts B sT = Inr t'"
    and "previousDisplayValue s = None \<or> previousDisplayValue s \<noteq> Some (state_display_text t)"
  shows "updateContent B s = Inr (updateTitleAndSubtitle B (title_text t') (subtitle_text t')
           (updateNumberDisplay B (state_display_text t') (unit_of_measurement_text t') (ensureCard sT)))"
  using assms by (auto simp: updateContent_def shouldUpdate_def Let_def)

lemma first_pass_runs:
  assumes "previousDisplayValue s = None" and "computeDisplayTexts B s = Inr t"
    and "applyTemplates s = Inr sT"
  shows "\<exists>s1. updateContent B s = Inr s1
      \<and> previousDisplayValue s1 = Some (state_display_text t)
      \<and> dom_log s1 = dom_log s @ [TextSet (state_display_text t)]
      \<and> config s1 = config s \<and> hass s1 = hass s"
proof -
  from text_after_templates[OF assms(3,2)] obtain t' where
    c': "computeDisplayTexts B sT = Inr t'" and tt: "state_display_text t' = state_display_text t"
    by blast
  note f = frame_fields[OF applyTemplates_frame[OF assms(3)]]
  have p: "previousDisplayValue (ensureCard sT) = None" using f(3) assms(1) by simp
  note u = updateNumberDisplay_first[OF p, of B "state_display_text t'" "unit_of_measurement_text t'"]
  from pass_unfold[OF assms(3,2) c'] assms(1)
  have run: "updateContent B s = Inr (updateTitleAndSubtitle B (title_text t') (subtitle_text t')
           (updateNumberDisplay B (state_display_text t') (unit_of_measurement_text t') (ensureCard sT)))"
    by simp
  show ?thesis
    unfolding run using u(1,2,4,5) f(1,2,4) tt by simp
qed

lemma first_pass:
  assumes "updateContent B s = Inr s1" and "previousDisplayValue s = None"
  shows "\<exists>t. computeDisplayTexts B s = Inr t
      \<and> previousDisplayValue s1 = Some (state_display_text t)
      \<and> dom_log s1 = dom_log s @ [TextSet (state_display_text t)]
      \<and> config s1 = config s \<and> hass s1 = hass s"
proof -
  from assms obtain t sT where c: "computeDisplayTexts B s = Inr t" and a: "applyTemplates s = Inr sT"
    by (auto simp: updateContent_def shouldUpdate_def split: sum.splits if_splits)
  from first_pass_runs[OF assms(2) c a] assms(1) c show ?thesis by auto
qed

lemma skipped_pass:
  assumes "previousDisplayValue st = Some p" and "computeDisplayTexts B st = Inr t"
    and "state_display_text t = p"
  shows "updateContent B st = Inr st"
  using assms by (simp add: updateContent_def shouldUpdate_def)

lemma text_of:
  "map_sum id state_display_text x = Inr v \<Longrightarrow> \<exists>t. x = Inr t \<and> state_display_text t = v"
  by (cases x) auto

lemma log_counts':
  assumes "dom_log st1 = dom_log st0 @ [TextSet v]"
  shows "text_mutations st1 = Suc (text_mutations st0)" and "class_changes st1 = class_changes st0"
  using assms by (simp_all add: text_mutations_def class_changes_def)

lemma sensor_card_ok: "truthy (config (sensor_card s d)) \<and> shadow_ok (sensor_card s d\<lparr>hass := h\<rparr>)"
  by (simp add: sensor_card_def blank_card_def shadow_ok_def group_ok_def is_mapping_def DEFAULT_CONFIG_def)

lemma clone_defaults: "deepMerge (JObj []) DEFAULT_CONFIG = Inr DEFAULT_CONFIG"
  by code_simp

lemma new_card_blank: "new_card = Inr blank_card"
  by (simp add: new_card_def blank_card_def clone_defaults)

lemma defaults_groups: "has_groups DEFAULT_CONFIG"
  by (simp add: has_groups_def is_mapping_def DEFAULT_CONFIG_def)

lemma blank_no_entity: "\<not> truthy (hasEntityId (blank_card\<lparr>hass := h\<rparr>))"
  by (simp add: hasEntityId_def js_and_def blank_card_def DEFAULT_CONFIG_def)

lemma blank_text:
  "\<exists>t. computeDisplayTexts B (blank_card\<lparr>hass := h\<rparr>) = Inr t \<and> state_display_text t = []"
  using compute_static[OF blank_no_entity, of B h]
  by (simp add: js_coalesce_def opt_get_def blank_card_def DEFAULT_CONFIG_def)

lemma blank_ok: "truthy (config (blank_card\<lparr>hass := h\<rparr>)) \<and> shadow_ok (blank_card\<lparr>hass := h\<rparr>)"
  by (simp add: blank_card_def shadow_ok_def group_ok_def is_mapping_def DEFAULT_CONFIG_def)


subsection \<open>Idempotence of the merge\<close>

text \<open>
  Claim C7. The config merge is idempotent on its own output: for a defaults tree \<open>D\<close> (a
  well-formed tree of mappings and scalars, as the registry is) and any well-formed patch
  \<open>P\<close>, the merge of \<open>P\<close> onto \<open>D\<close> returns a tree \<open>R\<close>, and merging \<open>R\<close> onto \<open>D\<close> again
  returns \<open>R\<close> itself.
\<close>

theorem merge_idempotent:
  assumes "wf_jv D" and "array_free D" and "wf_jv P"
  shows "\<exists>R. deepMerge D P = Inr R \<and> deepMerge D R = Inr R"
proof -
  from deepMerge_succeeds[OF assms(2)] obtain r where r: "deepMerge D P = Inr (JObj r)"
    by blast
  from merge_idem[OF assms(3) assms(2) assms(1) r] r show ?thesis by blast
qed

text \<open>The registry merged with a patch that overrides a leaf, nests into a group and adds a key.\<close>

theorem merge_idempotent_witness:
  "wf_jv DEFAULT_CONFIG \<and> array_free DEFAULT_CONFIG
   \<and> wf_jv (JObj [(''entity_id'', JStr ''sensor.t''), (''number'', JObj [(''decimals'', JNum (Fin 2))]),
                  (''font'', JObj [(''family'', JStr ''Rubik'')]), (''tags'', JArr [JStr ''a''])])
   \<and> (\<exists>R. deepMerge DEFAULT_CONFIG
          (JObj [(''entity_id'', JStr ''sensor.t''), (''number'', JObj [(''decimals'', JNum (Fin 2))]),
                 (''font'', JObj [(''family'', JStr ''Rubik'')]), (''tags'', JArr [JStr ''a''])]) = Inr R
        \<and> deepMerge DEFAULT_CONFIG R = Inr R)"
proof -
  have d1: "wf_jv DEFAULT_CONFIG" by (simp add: DEFAULT_CONFIG_def)
  have d2: "array_free DEFAULT_CONFIG" by (simp add: DEFAULT_CONFIG_def)
  have p: "wf_jv (JObj [(''entity_id'', JStr ''sensor.t''), (''number'', JObj [(''decimals'', JNum (Fin 2))]),
                  (''font'', JObj [(''family'', JStr ''Rubik'')]), (''tags'', JArr [JStr ''a''])])"
    by simp
  from merge_idempotent[OF d1 d2 p] d1 d2 p show ?thesis by blast
qed

subsection \<open>The three placeholder cases\<close>



subsection \<open>Numeric formatting\<close>

text \<open>
  Claim C2, as stated, fails: with \<^verbatim>\<open>number.decimals\<close> set to the string \<^verbatim>\<open>abc\<close> the code falls
  back to the default count 1, and the state \<^verbatim>\<open>21.456\<close> is shown as \<^verbatim>\<open>21.5\<close>, not as the
  unrounded \<^verbatim>\<open>21.456\<close>.
\<close>

theorem decimals_abc_counterexample:
  "map_sum id state_display_text
     (computeDisplayTexts dec_builtins (sensor_card ''21.456'' (JStr ''abc''))) = Inr ''21.5''
   \<and> ToString dec_builtins (JNum (ToNumber dec_builtins (JStr ''21.456''))) = ''21.456''"
  by code_simp

text \<open>
  Claim C2, amended. For a configured entity whose state record is present in the snapshot:
  a raw state that does not parse to a finite number is shown as its own string; for one
  that does, the decimal count is \<^verbatim>\<open>number.decimals\<close> converted to a number, and the default 1
  when that is null, undefined or not a finite number; a count that is a non-negative
  integer up to 100 gives the number in fixed-point notation with that many places, and a
  count that is negative or fractional gives the unrounded numeric string.
\<close>

theorem main_value_text:
  assumes "truthy (hasEntityId st)" and "truthy (hassStates st)" and "truthy (entity_state B st)"
  shows
    "(\<not> isFinite (ToNumber B (get_prop (entity_state B st) ''state'')) \<longrightarrow>
        (\<exists>t. computeDisplayTexts B st = Inr t
           \<and> state_display_text t = ToString B (get_prop (entity_state B st) ''state'')))
     \<and> (\<forall>q n. ToNumber B (get_prop (entity_state B st) ''state'') = Fin q
              \<and> spec_decimals B st = Fin (of_nat n) \<and> n \<le> 100 \<longrightarrow>
        (\<exists>t. computeDisplayTexts B st = Inr t \<and> state_display_text t = number_to_fixed B q n))
     \<and> (\<forall>q. ToNumber B (get_prop (entity_state B st) ''state'') = Fin q
              \<and> \<not> (isInteger (spec_decimals B st) \<and> ge_zero (spec_decimals B st)) \<longrightarrow>
        (\<exists>t. computeDisplayTexts B st = Inr t \<and> state_display_text t = number_to_string B q))"
proof -
  let ?raw = "get_prop (entity_state B st) ''state''"
  note eq = compute_entity_present[OF assms]
  have lift: "\<exists>t. computeDisplayTexts B st = Inr t \<and> state_display_text t = s"
    if "map_sum id state_display_text (computeDisplayTexts B st) = Inr s" for s
    using that by (cases "computeDisplayTexts B st") auto
  show ?thesis
  proof (intro conjI allI impI)
    assume "\<not> isFinite (ToNumber B ?raw)"
    with eq show "\<exists>t. computeDisplayTexts B st = Inr t \<and> state_display_text t = ToString B ?raw"
      by (intro lift) simp
  next
    fix q n
    assume a: "ToNumber B ?raw = Fin q \<and> spec_decimals B st = Fin (of_nat n) \<and> n \<le> 100"
    then have "toFixed B (Fin q) (spec_decimals B st) = Inr (number_to_fixed B q n)"
      by (simp add: toFixed_def)
    with a eq show "\<exists>t. computeDisplayTexts B st = Inr t \<and> state_display_text t = number_to_fixed B q n"
      by (intro lift) (simp add: format_number_spec)
  next
    fix q
    assume a: "ToNumber B ?raw = Fin q
      \<and> \<not> (isInteger (spec_decimals B st) \<and> ge_zero (spec_decimals B st))"
    with eq show "\<exists>t. computeDisplayTexts B st = Inr t \<and> state_display_text t = number_to_string B q"
      by (intro lift) (auto simp: format_number_spec)
  qed
qed

text \<open>
  The examples of the specification: state \<^verbatim>\<open>unavailable\<close> is shown as it is; state \<^verbatim>\<open>21.456\<close>
  gives \<^verbatim>\<open>21.5\<close> with one decimal, \<^verbatim>\<open>21\<close> with none, and \<^verbatim>\<open>21.456\<close> with the count -1.
\<close>

theorem main_value_text_witness:
  "(\<exists>t. computeDisplayTexts dec_builtins (sensor_card ''unavailable'' (JNum (Fin 1))) = Inr t
        \<and> state_display_text t = ''unavailable'')
   \<and> (\<exists>t. computeDisplayTexts dec_builtins (sensor_card ''21.456'' (JNum (Fin 1))) = Inr t
        \<and> state_display_text t = ''21.5'')
   \<and> (\<exists>t. computeDisplayTexts dec_builtins (sensor_card ''21.456'' (JNum (Fin 0))) = Inr t
        \<and> state_display_text t = ''21'')
   \<and> (\<exists>t. computeDisplayTexts dec_builtins (sensor_card ''21.456'' (JNum (Fin (- 1)))) = Inr t
        \<and> state_display_text t = ''21.456'')"
proof -
  let ?B = dec_builtins
  have p1: "truthy (hasEntityId (sensor_card s d))" for s d
    by (simp add: hasEntityId_def js_and_def sensor_card_def blank_card_def)
  have p2: "truthy (hassStates (sensor_card s d))" for s d
    by (simp add: hassStates_def sensor_card_def sensor_hass_def blank_card_def)
  have es: "entity_state ?B (sensor_card s d) = JObj [(''state'', JStr s)]" for s d
    by (simp add: hassStates_def entity_state_def sensor_card_def sensor_hass_def blank_card_def)
  have p3: "truthy (entity_state ?B (sensor_card s d))" for s d
    by (simp add: es)
  have raw: "get_prop (entity_state ?B (sensor_card s d)) ''state'' = JStr s" for s d
    by (simp add: es)
  note m = main_value_text[of _ ?B, OF p1 p2 p3, unfolded raw]
  have n1: "\<not> isFinite (ToNumber ?B (JStr ''unavailable''))" by code_simp
  have n2: "ToNumber ?B (JStr ''21.456'') = Fin (21456 / 1000)" by code_simp
  have d1: "spec_decimals ?B (sensor_card ''21.456'' (JNum (Fin 1))) = Fin (of_nat 1)" by code_simp
  have d0: "spec_decimals ?B (sensor_card ''21.456'' (JNum (Fin 0))) = Fin (of_nat 0)" by code_simp
  have dm: "\<not> (isInteger (spec_decimals ?B (sensor_card ''21.456'' (JNum (Fin (- 1)))))
      \<and> ge_zero (spec_decimals ?B (sensor_card ''21.456'' (JNum (Fin (- 1))))))" by code_simp
  have f1: "number_to_fixed ?B (21456 / 1000) 1 = ''21.5''" by code_simp
  have f0: "number_to_fixed ?B (21456 / 1000) 0 = ''21''" by code_simp
  have s: "number_to_string ?B (21456 / 1000) = ''21.456''" by code_simp
  have c1: "\<exists>t. computeDisplayTexts ?B (sensor_card ''unavailable'' (JNum (Fin 1))) = Inr t
        \<and> state_display_text t = ''unavailable''"
    using m[of "''unavailable''" "JNum (Fin 1)", THEN conjunct1, rule_format, OF n1]
    by (simp only: ToString.simps)
  have c2: "\<exists>t. computeDisplayTexts ?B (sensor_card ''21.456'' (JNum (Fin 1))) = Inr t
        \<and> state_display_text t = ''21.5''"
    using m[of "''21.456''" "JNum (Fin 1)", THEN conjunct2, THEN conjunct1, rule_format,
        of "21456 / 1000" 1] n2 d1
    by (simp only: f1 simp_thms one_le_numeral)
  have c3: "\<exists>t. computeDisplayTexts ?B (sensor_card ''21.456'' (JNum (Fin 0))) = Inr t
        \<and> state_display_text t = ''21''"
    using m[of "''21.456''" "JNum (Fin 0)", THEN conjunct2, THEN conjunct1, rule_format,
        of "21456 / 1000" 0] n2 d0
    by (simp only: f0 simp_thms zero_le)
  have c4: "\<exists>t. computeDisplayTexts ?B (sensor_card ''21.456'' (JNum (Fin (- 1)))) = Inr t
        \<and> state_display_text t = ''21.456''"
    using m[of "''21.456''" "JNum (Fin (- 1))", THEN conjunct2, THEN conjunct2, rule_format,
        of "21456 / 1000"] n2 dm
    by (simp only: s simp_thms)
  from c1 c2 c3 c4 show ?thesis by blast
qed

subsection \<open>Idempotence of the font loader\<close>



subsection \<open>Fields without template syntax\<close>




subsection \<open>Results of the host call\<close>

text \<open>
  Claim C4 on the title text (the subtitle runs the same code): a template that the host
  resolves to \<^verbatim>\<open>  Hello  \<close> is stored with its surrounding blanks, and one that the host
  resolves to the empty string replaces the previous shadow value \<^verbatim>\<open>Old\<close> by the empty
  string. The block for the card background trims the result and keeps the previous value
  on an empty result.
\<close>

theorem title_template_stored_raw:
  "map_sum id (\<lambda>st'. shadow_value st' ''title'' ''text'') (applyTemplates (titled_card (JStr ''  Hello  '')))
     = Inr (JStr ''  Hello  '')
   \<and> map_sum id (\<lambda>st'. shadow_value st' ''title'' ''text'') (applyTemplates (titled_card (JStr [])))
     = Inr (JStr [])"
  by code_simp

subsection \<open>The change gate\<close>

text \<open>
  Claim C6. A render attempt after the first render whose newly computed main value text
  equals the value displayed before is skipped as a whole: the state after
  \<^verbatim>\<open>updateContent\<close> is the state before it, so no template was sent to the host, the text of
  the number element was not assigned and no class was changed. Hence, when a first push
  renders a value and a second push resolves to the same text, the two pushes together
  assign the text once and change no class.
\<close>

theorem change_gate:
  "(previousDisplayValue st = Some p \<and> computeDisplayTexts B st = Inr t \<and> state_display_text t = p
      \<longrightarrow> updateContent B st = Inr st)
   \<and> (previousDisplayValue st0 = None \<and> set_hass B h1 st0 = Inr st1
       \<and> computeDisplayTexts B (st0\<lparr>hass := h1\<rparr>) = Inr t1
       \<and> computeDisplayTexts B (st1\<lparr>hass := h2\<rparr>) = Inr t2
       \<and> state_display_text t2 = state_display_text t1
      \<longrightarrow> set_hass B h2 st1 = Inr (st1\<lparr>hass := h2\<rparr>)
          \<and> text_mutations st1 = Suc (text_mutations st0)
          \<and> class_changes st1 = class_changes st0)"
proof (intro conjI impI)
  assume "previousDisplayValue st = Some p \<and> computeDisplayTexts B st = Inr t \<and> state_display_text t = p"
  then show "updateContent B st = Inr st" by (simp add: skipped_pass)
next
  assume a: "previousDisplayValue st0 = None \<and> set_hass B h1 st0 = Inr st1
       \<and> computeDisplayTexts B (st0\<lparr>hass := h1\<rparr>) = Inr t1
       \<and> computeDisplayTexts B (st1\<lparr>hass := h2\<rparr>) = Inr t2
       \<and> state_display_text t2 = state_display_text t1"
  then have run: "updateContent B (st0\<lparr>hass := h1\<rparr>) = Inr st1"
    and p0: "previousDisplayValue (st0\<lparr>hass := h1\<rparr>) = None"
    by (simp_all add: set_hass_def)
  from first_pass[OF run p0] a
  have prev: "previousDisplayValue st1 = Some (state_display_text t1)"
    and log: "dom_log st1 = dom_log st0 @ [TextSet (state_display_text t1)]"
    by auto
  from prev a have "previousDisplayValue (st1\<lparr>hass := h2\<rparr>) = Some (state_display_text t2)"
    by simp
  from skipped_pass[OF this, of B t2] a
  show "set_hass B h2 st1 = Inr (st1\<lparr>hass := h2\<rparr>)" by (simp add: set_hass_def)
  from log show "text_mutations st1 = Suc (text_mutations st0)" by (rule log_counts')
  from log show "class_changes st1 = class_changes st0" by (rule log_counts')
qed

text \<open>
  The states \<^verbatim>\<open>21.456\<close> and \<^verbatim>\<open>21.46\<close> pushed one after the other to a card with one decimal both
  resolve to \<^verbatim>\<open>21.5\<close>: the second push leaves the card as it is.
\<close>

theorem change_gate_witness:
  "\<exists>st1. set_hass dec_builtins (Some (sensor_hass ''21.456'')) (sensor_card ''0'' (JNum (Fin 1))) = Inr st1
     \<and> set_hass dec_builtins (Some (sensor_hass ''21.46'')) st1 = Inr (st1\<lparr>hass := Some (sensor_hass ''21.46'')\<rparr>)
     \<and> updateContent dec_builtins (st1\<lparr>hass := Some (sensor_hass ''21.46'')\<rparr>)
          = Inr (st1\<lparr>hass := Some (sensor_hass ''21.46'')\<rparr>)
     \<and> text_mutations st1 = Suc (text_mutations (sensor_card ''0'' (JNum (Fin 1))))
     \<and> class_changes st1 = class_changes (sensor_card ''0'' (JNum (Fin 1)))"
proof -
  let ?B = dec_builtins
  let ?st0 = "sensor_card ''0'' (JNum (Fin 1))"
  let ?h1 = "Some (sensor_hass ''21.456'')"
  let ?h2 = "Some (sensor_hass ''21.46'')"
  have p0: "previousDisplayValue ?st0 = None" by (simp add: sensor_card_def blank_card_def)
  have e1: "map_sum id state_display_text (computeDisplayTexts ?B (?st0\<lparr>hass := ?h1\<rparr>)) = Inr ''21.5''"
    by code_simp
  have e2: "map_sum id state_display_text (computeDisplayTexts ?B (?st0\<lparr>hass := ?h2\<rparr>)) = Inr ''21.5''"
    by code_simp
  from text_of[OF e1] obtain t1 where t1: "computeDisplayTexts ?B (?st0\<lparr>hass := ?h1\<rparr>) = Inr t1"
    "state_display_text t1 = ''21.5''" by blast
  from sensor_card_ok[of "''0''" "JNum (Fin 1)" ?h1]
  have "truthy (config (?st0\<lparr>hass := ?h1\<rparr>))" "shadow_ok (?st0\<lparr>hass := ?h1\<rparr>)" by simp_all
  from applyTemplates_ok[OF this] obtain sT where a: "applyTemplates (?st0\<lparr>hass := ?h1\<rparr>) = Inr sT"
    by blast
  have p1: "previousDisplayValue (?st0\<lparr>hass := ?h1\<rparr>) = None" using p0 by simp
  from first_pass_runs[OF p1 t1(1) a] obtain st1 where
    run: "updateContent ?B (?st0\<lparr>hass := ?h1\<rparr>) = Inr st1"
    and c1: "config st1 = config ?st0" by auto
  then have sh: "set_hass ?B ?h1 ?st0 = Inr st1" by (simp add: set_hass_def)
  from text_indep[of "st1\<lparr>hass := ?h2\<rparr>" "?st0\<lparr>hass := ?h2\<rparr>" ?B] c1 e2
  have "map_sum id state_display_text (computeDisplayTexts ?B (st1\<lparr>hass := ?h2\<rparr>)) = Inr ''21.5''"
    by simp
  from text_of[OF this] obtain t2 where t2: "computeDisplayTexts ?B (st1\<lparr>hass := ?h2\<rparr>) = Inr t2"
    "state_display_text t2 = ''21.5''" by blast
  have hyp2: "previousDisplayValue ?st0 = None \<and> set_hass ?B ?h1 ?st0 = Inr st1
       \<and> computeDisplayTexts ?B (?st0\<lparr>hass := ?h1\<rparr>) = Inr t1
       \<and> computeDisplayTexts ?B (st1\<lparr>hass := ?h2\<rparr>) = Inr t2
       \<and> state_display_text t2 = state_display_text t1"
    using p0 sh t1 t2 by simp
  note g = change_gate[of _ _ ?B _ ?st0 ?h1 st1 t1 ?h2 t2, THEN conjunct2, rule_format, OF hyp2]
  from g have s2: "set_hass ?B ?h2 st1 = Inr (st1\<lparr>hass := ?h2\<rparr>)" by simp
  then have prev2: "updateContent ?B (st1\<lparr>hass := ?h2\<rparr>) = Inr (st1\<lparr>hass := ?h2\<rparr>)"
    by (simp add: set_hass_def)
  from first_pass[OF run p1] t1
  have "previousDisplayValue (st1\<lparr>hass := ?h2\<rparr>) = Some ''21.5''" by auto
  then have hyp1: "previousDisplayValue (st1\<lparr>hass := ?h2\<rparr>) = Some ''21.5''
      \<and> computeDisplayTexts ?B (st1\<lparr>hass := ?h2\<rparr>) = Inr t2 \<and> state_display_text t2 = ''21.5''"
    using t2 by simp
  note g1 = change_gate[of "st1\<lparr>hass := ?h2\<rparr>" "''21.5''" ?B t2, THEN conjunct1, rule_format, OF hyp1]
  from sh g g1 show ?thesis by blast
qed


subsection \<open>The value animation\<close>

text \<open>
  Claim C8. When the new main value text differs from the one displayed before, a
  recognised animation kind is configured and no transition is in flight,
  \<^verbatim>\<open>updateNumberDisplay\<close> through \<^verbatim>\<open>animateValueChange\<close> resets the classes and applies the one
  \<^verbatim>\<open>out\<close> class at once; at any time before 300 ms have passed the old text and the \<^verbatim>\<open>out\<close>
  class are still in place; from 300 ms on, and before 600 ms, the text is the new one and
  the only class is the \<^verbatim>\<open>in\<close> class; from 600 ms on no class and no timer remains. With a
  kind that the animation table does not hold, the text is assigned at once, the classes
  stay as they were and no timer is set.
\<close>

theorem value_animation:
  "(previousDisplayValue st = Some old \<and> old \<noteq> new \<and> truthy (config st)
      \<and> get_prop (config st) ''animation'' = JStr kind
      \<and> get_prop animationMap kind = JObj [(''out'', JStr co), (''in'', JStr ci)]
      \<and> timers st = [] \<and> number_el st = Some el
     \<longrightarrow> number_el (updateNumberDisplay B new u st) = Some (el\<lparr>classList := [co]\<rparr>)
         \<and> dom_log (updateNumberDisplay B new u st) = dom_log st @ [ClassReset, ClassAdd co]
         \<and> (\<forall>t. t < now st + 300 \<longrightarrow>
               number_el (advance_to t (updateNumberDisplay B new u st)) = Some (el\<lparr>classList := [co]\<rparr>))
         \<and> (\<forall>t. now st + 300 \<le> t \<and> t < now st + 600 \<longrightarrow>
               number_el (advance_to t (updateNumberDisplay B new u st))
                 = Some \<lparr>textContent = new, classList = [ci]\<rparr>)
         \<and> (\<forall>t. now st + 600 \<le> t \<longrightarrow>
               number_el (advance_to t (updateNumberDisplay B new u st))
                 = Some \<lparr>textContent = new, classList = []\<rparr>
               \<and> timers (advance_to t (updateNumberDisplay B new u st)) = []))
   \<and> (previousDisplayValue st = Some old \<and> old \<noteq> new \<and> truthy (config st)
      \<and> truthy (get_prop (config st) ''animation'')
      \<and> \<not> truthy (get_prop animationMap (ToString B (get_prop (config st) ''animation'')))
      \<and> number_el st = Some el
     \<longrightarrow> number_el (updateNumberDisplay B new u st) = Some (el\<lparr>textContent := new\<rparr>)
         \<and> dom_log (updateNumberDisplay B new u st) = dom_log st @ [TextSet new]
         \<and> timers (updateNumberDisplay B new u st) = timers st)"
proof (intro conjI impI allI)
  assume a: "previousDisplayValue st = Some old \<and> old \<noteq> new \<and> truthy (config st)
      \<and> get_prop (config st) ''animation'' = JStr kind
      \<and> get_prop animationMap kind = JObj [(''out'', JStr co), (''in'', JStr ci)]
      \<and> timers st = [] \<and> number_el st = Some el"
  let ?s = "updateNumberDisplay B new u st"
  from a have h: "previousDisplayValue st = Some old" "old \<noteq> new" "truthy (config st)"
    "get_prop (config st) ''animation'' = JStr kind"
    "get_prop animationMap kind = JObj [(''out'', JStr co), (''in'', JStr ci)]"
    "number_el st = Some el" and tm0: "timers st = []"
    by simp_all
  note r = updateNumberDisplay_animated[OF h, of B u]
  show el1: "number_el ?s = Some (el\<lparr>classList := [co]\<rparr>)" by (rule r(1))
  show "dom_log ?s = dom_log st @ [ClassReset, ClassAdd co]" by (rule r(2))
  have tm: "timers ?s = [(now st + 300, SwapText new co ci)]" using r(3) tm0 by simp
  have cl: "classList (el\<lparr>classList := [co]\<rparr>) = [co]" by simp
  have nw: "now ?s \<le> now st + 300" using r(4) by simp
  {
    fix t assume "t < now st + 300"
    from swap_pending[OF tm this] el1
    show "number_el (advance_to t ?s) = Some (el\<lparr>classList := [co]\<rparr>)" by simp
  }
  {
    fix t assume "now st + 300 \<le> t \<and> t < now st + 600"
    then have "now st + 300 \<le> t" "t < now st + 300 + 300" by simp_all
    from swap_done[OF tm el1 cl this nw]
    show "number_el (advance_to t ?s) = Some \<lparr>textContent = new, classList = [ci]\<rparr>" .
  }
  {
    fix t assume "now st + 600 \<le> t"
    then have "now st + 300 + 300 \<le> t" by simp
    from swap_cleared[OF tm el1 cl this nw]
    show "number_el (advance_to t ?s) = Some \<lparr>textContent = new, classList = []\<rparr>"
      and "timers (advance_to t ?s) = []" by simp_all
  }
next
  assume a: "previousDisplayValue st = Some old \<and> old \<noteq> new \<and> truthy (config st)
      \<and> truthy (get_prop (config st) ''animation'')
      \<and> \<not> truthy (get_prop animationMap (ToString B (get_prop (config st) ''animation'')))
      \<and> number_el st = Some el"
  then have h: "truthy (config st)"
    "\<not> truthy (get_prop animationMap (ToString B (get_prop (config st) ''animation'')))"
    "number_el st = Some el" by simp_all
  note r = updateNumberDisplay_plain[OF h, of new u]
  show "number_el (updateNumberDisplay B new u st) = Some (el\<lparr>textContent := new\<rparr>)" by (rule r(1))
  show "dom_log (updateNumberDisplay B new u st) = dom_log st @ [TextSet new]" by (rule r(2))
  show "timers (updateNumberDisplay B new u st) = timers st" by (rule r(3))
qed

text \<open>
  The card showing \<^verbatim>\<open>21.4\<close> at time 1000 with the kind \<^verbatim>\<open>fade\<close>, asked to show \<^verbatim>\<open>21.5\<close>: seen at
  1299, 1300 and 1600; and the same card with the unknown kind \<^verbatim>\<open>spin\<close>.
\<close>

theorem value_animation_witness:
  "number_el (updateNumberDisplay dec_builtins ''21.5'' (JStr []) (shown_card (JStr ''fade'')))
      = Some \<lparr>textContent = ''21.4'', classList = [''animate-fade-out'']\<rparr>
   \<and> number_el (advance_to 1299 (updateNumberDisplay dec_builtins ''21.5'' (JStr []) (shown_card (JStr ''fade''))))
      = Some \<lparr>textContent = ''21.4'', classList = [''animate-fade-out'']\<rparr>
   \<and> number_el (advance_to 1300 (updateNumberDisplay dec_builtins ''21.5'' (JStr []) (shown_card (JStr ''fade''))))
      = Some \<lparr>textContent = ''21.5'', classList = [''animate-fade-in'']\<rparr>
   \<and> number_el (advance_to 1600 (updateNumberDisplay dec_builtins ''21.5'' (JStr []) (shown_card (JStr ''fade''))))
      = Some \<lparr>textContent = ''21.5'', classList = []\<rparr>
   \<and> number_el (updateNumberDisplay dec_builtins ''21.5'' (JStr []) (shown_card (JStr ''spin'')))
      = Some \<lparr>textContent = ''21.5'', classList = []\<rparr>"
proof -
  let ?B = dec_builtins
  let ?st = "shown_card (JStr ''fade'')"
  let ?st' = "shown_card (JStr ''spin'')"
  let ?el = "\<lparr>textContent = ''21.4'', classList = []\<rparr>"
  have h: "previousDisplayValue ?st = Some ''21.4'' \<and> ''21.4'' \<noteq> ''21.5'' \<and> truthy (config ?st)
      \<and> get_prop (config ?st) ''animation'' = JStr ''fade''
      \<and> get_prop animationMap ''fade'' = JObj [(''out'', JStr ''animate-fade-out''), (''in'', JStr ''animate-fade-in'')]
      \<and> timers ?st = [] \<and> number_el ?st = Some ?el"
    by (simp add: shown_card_def blank_card_def animationMap_def)
  have n: "now ?st = 1000" by (simp add: shown_card_def blank_card_def)
  note a = value_animation[of ?st "''21.4''" "''21.5''" "''fade''" "''animate-fade-out''" "''animate-fade-in''" ?el ?B "JStr []",
      THEN conjunct1, rule_format, OF h, unfolded n]
  have c1: "number_el (updateNumberDisplay ?B ''21.5'' (JStr []) ?st)
      = Some \<lparr>textContent = ''21.4'', classList = [''animate-fade-out'']\<rparr>"
    using a by simp
  have c2: "number_el (advance_to 1299 (updateNumberDisplay ?B ''21.5'' (JStr []) ?st))
      = Some \<lparr>textContent = ''21.4'', classList = [''animate-fade-out'']\<rparr>"
    using a[THEN conjunct2, THEN conjunct2, THEN conjunct1, rule_format, of 1299] by simp
  have c3: "number_el (advance_to 1300 (updateNumberDisplay ?B ''21.5'' (JStr []) ?st))
      = Some \<lparr>textContent = ''21.5'', classList = [''animate-fade-in'']\<rparr>"
    using a[THEN conjunct2, THEN conjunct2, THEN conjunct2, THEN conjunct1, rule_format, of 1300] by simp
  have c4: "number_el (advance_to 1600 (updateNumberDisplay ?B ''21.5'' (JStr []) ?st))
      = Some \<lparr>textContent = ''21.5'', classList = []\<rparr>"
    using a[THEN conjunct2, THEN conjunct2, THEN conjunct2, THEN conjunct2, rule_format, of 1600] by simp
  have h': "previousDisplayValue ?st' = Some ''21.4'' \<and> ''21.4'' \<noteq> ''21.5'' \<and> truthy (config ?st')
      \<and> truthy (get_prop (config ?st') ''animation'')
      \<and> \<not> truthy (get_prop animationMap (ToString ?B (get_prop (config ?st') ''animation'')))
      \<and> number_el ?st' = Some ?el"
    by (simp add: shown_card_def blank_card_def animationMap_def)
  have c5: "number_el (updateNumberDisplay ?B ''21.5'' (JStr []) ?st')
      = Some \<lparr>textContent = ''21.5'', classList = []\<rparr>"
    using value_animation[of ?st' "''21.4''" "''21.5''" _ _ _ ?el ?B "JStr []",
      THEN conjunct2, rule_format, OF h'] by simp
  from c1 c2 c3 c4 c5 show ?thesis by blast
qed


subsection \<open>The constructor\<close>

text \<open>
  Claim C10. The constructor returns a card whose effective and shadow configuration both
  equal the registry, with all five nested groups present as mappings. A render pass on
  that card, whatever host object is pushed before any \<^verbatim>\<open>setConfig\<close>, takes the branch
  without entity: the value text is the empty string, the pass ends without an exception
  and assigns the empty text once.
\<close>

theorem constructor_defaults:
  "\<exists>st0. new_card = Inr st0 \<and> config st0 = DEFAULT_CONFIG \<and> shadowConfig st0 = DEFAULT_CONFIG
     \<and> has_groups (config st0) \<and> has_groups (shadowConfig st0)
     \<and> (\<forall>B h. \<exists>t. computeDisplayTexts B (st0\<lparr>hass := h\<rparr>) = Inr t \<and> state_display_text t = [])
     \<and> (\<forall>B h. \<exists>st1. set_hass B h st0 = Inr st1 \<and> previousDisplayValue st1 = Some []
            \<and> dom_log st1 = [TextSet []])"
proof -
  have c1: "new_card = Inr blank_card" by (rule new_card_blank)
  have c2: "config blank_card = DEFAULT_CONFIG" by (simp add: blank_card_def)
  have c3: "shadowConfig blank_card = DEFAULT_CONFIG" by (simp add: blank_card_def)
  have c4: "has_groups (config blank_card)" by (simp add: blank_card_def defaults_groups)
  have c5: "has_groups (shadowConfig blank_card)" by (simp add: blank_card_def defaults_groups)
  have c6: "\<forall>B h. \<exists>t. computeDisplayTexts B (blank_card\<lparr>hass := h\<rparr>) = Inr t \<and> state_display_text t = []"
    using blank_text by blast
  have c7: "\<exists>st1. set_hass B h blank_card = Inr st1 \<and> previousDisplayValue st1 = Some []
            \<and> dom_log st1 = [TextSet []]" for B h
  proof -
    from blank_text[of B h] obtain t where t: "computeDisplayTexts B (blank_card\<lparr>hass := h\<rparr>) = Inr t"
      "state_display_text t = []" by blast
    from blank_ok[of h] have "truthy (config (blank_card\<lparr>hass := h\<rparr>))" "shadow_ok (blank_card\<lparr>hass := h\<rparr>)"
      by simp_all
    from applyTemplates_ok[OF this] obtain sT where a: "applyTemplates (blank_card\<lparr>hass := h\<rparr>) = Inr sT"
      by blast
    have p: "previousDisplayValue (blank_card\<lparr>hass := h\<rparr>) = None" by (simp add: blank_card_def)
    have d: "dom_log (blank_card\<lparr>hass := h\<rparr>) = []" by (simp add: blank_card_def)
    from first_pass_runs[OF p t(1) a] t(2) d
    show ?thesis by (auto simp: set_hass_def)
  qed
  from c1 c2 c3 c4 c5 c6 c7 show ?thesis by blast
qed


end
